theory Spec2Isabelle
  imports Main "HOL-Library.Sublist"
begin

section \<open>Go string helpers used by the generator\<close>

definition upper_letters :: string where
  "upper_letters = ''ABCDEFGHIJKLMNOPQRSTUVWXYZ''"

definition lower_letters :: string where
  "lower_letters = ''abcdefghijklmnopqrstuvwxyz''"

definition lower_byte :: "char \<Rightarrow> char" where
  "lower_byte c =
     (case map_of (zip upper_letters lower_letters) c of None \<Rightarrow> c | Some d \<Rightarrow> d)"

text \<open>
  \<^verbatim>\<open>strings.ToLower\<close> has two branches. A string made of ASCII bytes only is lower-cased
  byte by byte, \<^verbatim>\<open>A\<close> to \<^verbatim>\<open>Z\<close> becoming \<^verbatim>\<open>a\<close> to \<^verbatim>\<open>z\<close>. Any other string goes
  through the library's Unicode mapping (every letter is replaced by its lower-case form and
  invalid UTF-8 by the replacement character); that mapping is not part of this program and is
  taken as the parameter \<open>unicode\<close>.
\<close>

definition is_ascii :: "string \<Rightarrow> bool" where
  "is_ascii s = list_all (\<lambda>c. \<not> digit7 c) s"

definition ToLower :: "(string \<Rightarrow> string) \<Rightarrow> string \<Rightarrow> string" where
  "ToLower unicode s = (if is_ascii s then map lower_byte s else unicode s)"

function Replace :: "string \<Rightarrow> string \<Rightarrow> string \<Rightarrow> int \<Rightarrow> string" where
  "Replace s old new n =
     (if n = 0 \<or> old = [] then s
      else if prefix old s then new @ Replace (drop (length old) s) old new (n - 1)
      else (case s of [] \<Rightarrow> [] | c # cs \<Rightarrow> c # Replace cs old new n))"
  by pat_completeness auto
termination
  by (relation "measure (\<lambda>(s, old, new, n). length s)") (auto simp: prefix_def)

declare Replace.simps [simp del]

fun Ext_scan :: "string \<Rightarrow> string \<Rightarrow> string" where
  "Ext_scan [] acc = []"
| "Ext_scan (c # r) acc =
     (if c = CHR ''/'' then []
      else if c = CHR ''.'' then c # acc
      else Ext_scan r (c # acc))"

definition Ext :: "string \<Rightarrow> string" where
  "Ext path = Ext_scan (rev path) []"

definition TrimSuffix :: "string \<Rightarrow> string \<Rightarrow> string" where
  "TrimSuffix s suf = (if suffix suf s then take (length s - length suf) s else s)"

section \<open>Pages, the environment and the content tree\<close>

record page =
  Path :: string
  OutPath :: string
  Name :: string
  Type :: string
  Backlinks :: "string \<rightharpoonup> string"
  Content :: string
  Navigation :: string
  Footer :: string
  StaticImports :: string

datatype exec_result = Written string | Failed string

record env =
  markdown_template :: "(page \<Rightarrow> exec_result) option"
  footer_template :: "(page \<Rightarrow> string) option"
  navigation_partial :: "string option"
  static_partial :: "string option"
  source_template :: "string \<Rightarrow> (page \<Rightarrow> exec_result) option"
  mkdir_ok :: "string \<Rightarrow> bool"
  create_ok :: "string \<Rightarrow> bool"
  copy_ok :: "string \<Rightarrow> bool"
  markdown2html :: "string \<Rightarrow> string"
  reHref :: "string \<Rightarrow> string list"
  unicode_lower :: "string \<Rightarrow> string"

definition outPath_of :: "env \<Rightarrow> string \<Rightarrow> string" where
  "outPath_of e path =
     ''public/'' @
       Replace (Replace (Replace (ToLower (unicode_lower e) path) ''content/'' [] 1)
                  '' '' ''_'' (- 1))
         ''.md'' ''.html'' 1"

datatype inode = File string "string option" | Dir string "inode list option"

datatype event =
    Log string
  | Fatal
  | Load string
  | Mkdir string
  | Insert string
  | Backlink string string string
  | Write string

record store =
  pages :: "string \<rightharpoonup> page"
  files :: "string \<rightharpoonup> string"

definition empty_store :: store where
  "empty_store = \<lparr>pages = Map.empty, files = Map.empty\<rparr>"

definition NewPage :: "env \<Rightarrow> string \<Rightarrow> string \<Rightarrow> string \<Rightarrow> event list \<times> (string + page)" where
  "NewPage e path outPath name =
     (let p = \<lparr>Path = path, OutPath = outPath, Name = name, Type = [],
                Backlinks = Map.empty, Content = [], Navigation = [], Footer = [],
                StaticImports = []\<rparr>
      in case navigation_partial e of
           None \<Rightarrow> ([Load ''template/navigation.html''],
                    Inl ''[gen/page/new] unable to open navigation partial'')
         | Some nav \<Rightarrow>
             (case static_partial e of
                None \<Rightarrow> ([Load ''template/navigation.html'', Load ''template/static.html''],
                         Inl ''[gen/page/new] unable to open static imports partial'')
              | Some si \<Rightarrow> ([Load ''template/navigation.html'', Load ''template/static.html''],
                            Inr (p\<lparr>Navigation := nav, StaticImports := si\<rparr>))))"

definition copyFile :: "env \<Rightarrow> string option \<Rightarrow> string \<Rightarrow> store \<Rightarrow> event list \<times> store option" where
  "copyFile e src outPath st =
     (case src of
        None \<Rightarrow> ([Fatal], None)
      | Some bytes \<Rightarrow>
          if \<not> create_ok e outPath then ([Fatal], None)
          else if \<not> copy_ok e outPath then ([Write outPath, Fatal], None)
          else ([Write outPath], Some (st\<lparr>files := (files st)(outPath \<mapsto> bytes)\<rparr>)))"

definition registry_key :: "page \<Rightarrow> string" where
  "registry_key p = Replace (OutPath p) ''/content'' [] 1"

definition register :: "page \<Rightarrow> store \<Rightarrow> event list \<times> store option" where
  "register p st =
     ([Insert (registry_key p)], Some (st\<lparr>pages := (pages st)(registry_key p \<mapsto> p)\<rparr>))"

definition parseFile ::
  "env \<Rightarrow> string \<Rightarrow> string \<Rightarrow> string \<Rightarrow> string option \<Rightarrow> store \<Rightarrow> event list \<times> store option" where
  "parseFile e directory parent name src st =
     (let path = directory @ ''/'' @ name; outPath = outPath_of e path
      in case src of
           None \<Rightarrow> ([Log (''[gen/parse/source] unable to read source '' @ outPath)], Some st)
         | Some s \<Rightarrow>
             (case NewPage e path outPath (TrimSuffix name (Ext name)) of
                (ev, Inl err) \<Rightarrow> (ev @ [Log err], Some st)
              | (ev, Inr p0) \<Rightarrow>
                  (let p = (if Name p0 = ''index'' then p0\<lparr>Name := parent\<rparr> else p0)
                   in if Ext name = ''.html'' then
                        (case register (p\<lparr>Type := ''HTML''\<rparr>) st of
                           (ev', r) \<Rightarrow> (ev @ ev', r))
                      else if Ext name = ''.md'' then
                        (case register (p\<lparr>Content := markdown2html e s, Type := ''MD''\<rparr>) st of
                           (ev', r) \<Rightarrow> (ev @ ev', r))
                      else
                        (case copyFile e src outPath st of
                           (ev', None) \<Rightarrow>
                             (ev @ Log (''[gen/process/file] copying '' @ path) # ev', None)
                         | (ev', Some st') \<Rightarrow>
                             (case register p st' of
                                (ev'', r) \<Rightarrow>
                                  (ev @ Log (''[gen/process/file] copying '' @ path) # ev' @ ev'', r))))))"

definition childName :: "string \<Rightarrow> string \<Rightarrow> string" where
  "childName directory parent = (if directory = ''content'' then parent else directory)"

fun parseDirectoryContent ::
  "env \<Rightarrow> string \<Rightarrow> string \<Rightarrow> inode list option \<Rightarrow> store \<Rightarrow> event list \<times> store option"
and parseInodes ::
  "env \<Rightarrow> string \<Rightarrow> string \<Rightarrow> inode list \<Rightarrow> store \<Rightarrow> event list \<times> store option"
where
  "parseDirectoryContent e directory parent None st = ([Fatal], None)"
| "parseDirectoryContent e directory parent (Some inodes) st =
     (case parseInodes e directory parent inodes st of
        (ev, r) \<Rightarrow> (Mkdir ''public'' # ev, r))"
| "parseInodes e directory parent [] st = ([], Some st)"
| "parseInodes e directory parent (File name src # rest) st =
     (case parseFile e directory parent name src st of
        (ev, None) \<Rightarrow> (ev, None)
      | (ev, Some st') \<Rightarrow>
          (case parseInodes e directory parent rest st' of (ev', r) \<Rightarrow> (ev @ ev', r)))"
| "parseInodes e directory parent (Dir name listing # rest) st =
     (let path = directory @ ''/'' @ name; outPath = outPath_of e path
      in if \<not> mkdir_ok e outPath then
           (case parseInodes e directory parent rest st of
              (ev', r) \<Rightarrow>
                (Mkdir outPath # Log (''[gen/process/dir] unable to create directory '' @ outPath) # ev', r))
         else
           (case parseDirectoryContent e path (childName directory parent) listing st of
              (ev, None) \<Rightarrow>
                (Mkdir outPath # Log (''[gen/process/dir] created directory '' @ outPath) # ev, None)
            | (ev, Some st') \<Rightarrow>
                (case parseInodes e directory parent rest st' of
                   (ev', r) \<Rightarrow>
                     (Mkdir outPath # Log (''[gen/process/dir] created directory '' @ outPath)
                        # ev @ ev', r))))"

section \<open>The backlink pass\<close>

definition backlink_key :: "page \<Rightarrow> string" where
  "backlink_key p = Replace (OutPath p) ''public'' [] 1"

definition add_backlink :: "page \<Rightarrow> page \<Rightarrow> page" where
  "add_backlink src target =
     target\<lparr>Backlinks := (Backlinks target)(backlink_key src \<mapsto> Name src)\<rparr>"

definition resolve_link :: "page \<Rightarrow> string \<Rightarrow> store \<Rightarrow> event list \<times> store" where
  "resolve_link src link st =
     (let found = Log (''[gen/parse/backlinks] found link in '' @ OutPath src @ '': '' @ link);
          p = ''public'' @ link
      in case pages st p of
           Some target \<Rightarrow>
             ([found, Backlink p (backlink_key src) (Name src)],
              st\<lparr>pages := (pages st)(p \<mapsto> add_backlink src target)\<rparr>)
         | None \<Rightarrow>
             (let p' = ''public'' @ link @ ''/index.html''
              in case pages st p' of
                   Some target \<Rightarrow>
                     ([found, Backlink p' (backlink_key src) (Name src)],
                      st\<lparr>pages := (pages st)(p' \<mapsto> add_backlink src target)\<rparr>)
                 | None \<Rightarrow>
                     ([found, Log (''[gen/parse/backlinks] unable to find page '' @ p')], st)))"

fun resolve_links :: "page \<Rightarrow> string list \<Rightarrow> store \<Rightarrow> event list \<times> store" where
  "resolve_links src [] st = ([], st)"
| "resolve_links src (link # links) st =
     (case resolve_link src link st of
        (ev, st') \<Rightarrow> (case resolve_links src links st' of (ev', r) \<Rightarrow> (ev @ ev', r)))"

definition resolve_page :: "env \<Rightarrow> string \<Rightarrow> store \<Rightarrow> event list \<times> store" where
  "resolve_page e key st =
     (case pages st key of
        None \<Rightarrow> ([], st)
      | Some page \<Rightarrow>
          if Type page \<noteq> [] then
            (case resolve_links page (reHref e (Content page)) st of
               (ev, r) \<Rightarrow>
                 (Log (''[gen/parse/backlinks] parsing '' @ OutPath page @ '' as '' @ key) # ev, r))
          else ([], st))"

fun resolve_all :: "env \<Rightarrow> string list \<Rightarrow> store \<Rightarrow> event list \<times> store" where
  "resolve_all e [] st = ([], st)"
| "resolve_all e (key # keys) st =
     (case resolve_page e key st of
        (ev, st') \<Rightarrow> (case resolve_all e keys st' of (ev', r) \<Rightarrow> (ev @ ev', r)))"

section \<open>The render pass\<close>

definition write_template ::
  "env \<Rightarrow> (page \<Rightarrow> exec_result) \<Rightarrow> page \<Rightarrow> (string \<rightharpoonup> string)
     \<Rightarrow> event list \<times> (string \<rightharpoonup> string)" where
  "write_template e tpl p fs =
     (if \<not> create_ok e (OutPath p) then
        ([Log (''[gen/render/file] unable to create file '' @ OutPath p)], fs)
      else
        (case tpl p of
           Failed b \<Rightarrow>
             ([Write (OutPath p), Log (''[gen/render/file] unable to render to file '' @ OutPath p)],
              fs(OutPath p \<mapsto> b))
         | Written b \<Rightarrow>
             ([Write (OutPath p), Log (''[gen/render/file] rendered file '' @ OutPath p)],
              fs(OutPath p \<mapsto> b))))"

definition renderMd ::
  "(page \<Rightarrow> exec_result) \<Rightarrow> env \<Rightarrow> page \<Rightarrow> (string \<rightharpoonup> string)
     \<Rightarrow> event list \<times> (string \<rightharpoonup> string)" where
  "renderMd mdTemplate e p fs = write_template e mdTemplate p fs"

definition renderHtml ::
  "env \<Rightarrow> page \<Rightarrow> (string \<rightharpoonup> string) \<Rightarrow> event list \<times> (string \<rightharpoonup> string)" where
  "renderHtml e p fs =
     (case source_template e (Path p) of
        None \<Rightarrow> ([Log ''[gen/render/dir] unable to open source file''], fs)
      | Some source \<Rightarrow> write_template e source p fs)"

definition Render ::
  "(page \<Rightarrow> string) \<Rightarrow> (page \<Rightarrow> exec_result) \<Rightarrow> env \<Rightarrow> page \<Rightarrow> (string \<rightharpoonup> string)
     \<Rightarrow> event list \<times> page \<times> (string \<rightharpoonup> string)" where
  "Render footerTemplate mdTemplate e p0 fs =
     (let p = p0\<lparr>Footer := footerTemplate p0\<rparr>
      in if Type p = ''HTML'' then (case renderHtml e p fs of (ev, fs') \<Rightarrow> (ev, p, fs'))
         else if Type p = ''MD'' then
           (case renderMd mdTemplate e p fs of (ev, fs') \<Rightarrow> (ev, p, fs'))
         else ([], p, fs))"

fun render_all ::
  "(page \<Rightarrow> string) \<Rightarrow> (page \<Rightarrow> exec_result) \<Rightarrow> env \<Rightarrow> string list \<Rightarrow> store
     \<Rightarrow> event list \<times> store" where
  "render_all ft mt e [] st = ([], st)"
| "render_all ft mt e (key # keys) st =
     (case pages st key of
        None \<Rightarrow> render_all ft mt e keys st
      | Some p \<Rightarrow>
          (case Render ft mt e p (files st) of
             (ev, p', fs') \<Rightarrow>
               (case render_all ft mt e keys (st\<lparr>pages := (pages st)(key \<mapsto> p'), files := fs'\<rparr>) of
                  (ev', r) \<Rightarrow> (ev @ ev', r))))"

section \<open>The entry point\<close>

datatype outcome = Returned | Exited | Finished store

definition init_events :: "event list" where
  "init_events =
     [Load ''template/markdown.html'', Log ''[gen/init/template] opened markdown template'',
      Load ''template/footer.html'', Log ''[gen/init/template] opened footer template'']"

definition main ::
  "env \<Rightarrow> inode list option \<Rightarrow> string list \<Rightarrow> string list \<Rightarrow> event list \<times> outcome" where
  "main e root order1 order2 =
     (case markdown_template e of
        None \<Rightarrow>
          ([Load ''template/markdown.html'',
            Log ''[gen/init/template] unable to open markdown template''], Returned)
      | Some mdTemplate \<Rightarrow>
          (case footer_template e of
             None \<Rightarrow>
               ([Load ''template/markdown.html'',
                 Log ''[gen/init/template] opened markdown template'',
                 Load ''template/footer.html'',
                 Log ''[gen/init/template] unable to open footer template''], Returned)
           | Some footerTemplate \<Rightarrow>
               (let init = init_events
                in case parseDirectoryContent e ''content'' ''Oliver'' root empty_store of
                     (ev1, None) \<Rightarrow> (init @ ev1, Exited)
                   | (ev1, Some st1) \<Rightarrow>
                       (case resolve_all e order1 st1 of
                          (ev2, st2) \<Rightarrow>
                            (case render_all footerTemplate mdTemplate e order2 st2 of
                               (ev3, st3) \<Rightarrow>
                                 (init @ ev1 @ Log ''[gen/parse] parsed pages'' # ev2 @ ev3,
                                  Finished st3))))))"

section \<open>Auxiliary notions used in the statements\<close>

text \<open>Substring test, as \<^verbatim>\<open>strings.Contains\<close>.\<close>

fun Contains :: "string \<Rightarrow> string \<Rightarrow> bool" where
  "Contains [] sub = (sub = [])"
| "Contains (c # cs) sub = (prefix sub (c # cs) \<or> Contains cs sub)"

text \<open>
  The Path Mapper as the specification words it: strip the content-root prefix, lower-case
  the remainder, replace spaces by underscores, replace a markdown extension by the HTML
  extension, prefix the output root.
\<close>

definition pathMapper_spec :: "env \<Rightarrow> string \<Rightarrow> string" where
  "pathMapper_spec e path =
     (let rest = (if prefix ''content/'' path then drop (length ''content/'') path else path);
          low = ToLower (unicode_lower e) rest;
          us = map (\<lambda>c. if c = CHR '' '' then CHR ''_'' else c) low;
          ext = (if Ext us = ''.md'' then TrimSuffix us ''.md'' @ ''.html'' else us)
      in ''public/'' @ ext)"

text \<open>A small concrete environment and concrete inputs on which the model is run.\<close>

definition demo_env :: env where
  "demo_env =
     \<lparr>markdown_template = Some (\<lambda>p. Written (Content p @ Footer p)),
      footer_template = Some (\<lambda>p. ''footer''),
      navigation_partial = Some ''nav'',
      static_partial = Some ''static'',
      source_template = (\<lambda>path. None),
      mkdir_ok = (\<lambda>path. True),
      create_ok = (\<lambda>path. True),
      copy_ok = (\<lambda>path. True),
      markdown2html = (\<lambda>s. s),
      reHref = (\<lambda>s. if s = ''[home](/blog)'' then [''/blog'']
                    else if s = ''[readme](/readme.txt)'' then [''/readme.txt'']
                    else []),
      unicode_lower = (\<lambda>s. s)\<rparr>"

definition demo_page :: page where
  "demo_page =
     \<lparr>Path = ''content/readme.txt'', OutPath = ''public/readme.txt'', Name = ''readme'',
      Type = [], Backlinks = Map.empty, Content = [], Navigation = ''nav'', Footer = [],
      StaticImports = ''static''\<rparr>"

text \<open>Classification of the effects in a trace, by the pass that may produce them.\<close>

fun is_insert :: "event \<Rightarrow> bool" where
  "is_insert (Insert k) = True"
| "is_insert _ = False"

fun is_backlink :: "event \<Rightarrow> bool" where
  "is_backlink (Backlink t k n) = True"
| "is_backlink _ = False"

fun compile_event :: "event \<Rightarrow> bool" where
  "compile_event (Backlink t k n) = False"
| "compile_event (Load f) = (f = ''template/navigation.html'' \<or> f = ''template/static.html'')"
| "compile_event _ = True"

fun later_event :: "event \<Rightarrow> bool" where
  "later_event (Log m) = True"
| "later_event (Backlink t k n) = True"
| "later_event (Write f) = True"
| "later_event _ = False"


definition demo_tree :: "inode list option" where
  "demo_tree =
     Some [Dir ''blog'' (Some [File ''index.md'' (Some ''plain''),
                              File ''post.md'' (Some ''[home](/blog)'')]),
           File ''readme.txt'' (Some ''hi'')]"

definition demo_order :: "string list" where
  "demo_order = [''public/readme.txt'', ''public/blog/post.html'', ''public/blog/index.html'']"

definition asset_tree :: "inode list option" where
  "asset_tree =
     Some [File ''about.md'' (Some ''[readme](/readme.txt)''), File ''readme.txt'' (Some ''hi'')]"

definition asset_order :: "string list" where
  "asset_order = [''public/about.html'', ''public/readme.txt'']"

definition no_backlinks :: "store \<Rightarrow> bool" where
  "no_backlinks st \<longleftrightarrow> (\<forall>key p. pages st key = Some p \<longrightarrow> Backlinks p = Map.empty)"

definition clash_tree :: "inode list option" where
  "clash_tree = Some [File ''a.MD'' (Some ''RAW''), File ''a.md'' (Some ''text'')]"

definition clash_order :: "string list" where
  "clash_order = [''public/a.html'']"

definition asset_store :: store where
  "asset_store =
     \<lparr>pages = [''public/readme.txt'' \<mapsto> demo_page],
      files = [''public/readme.txt'' \<mapsto> ''hi'']\<rparr>"






text \<open>
  The backlink pass seen as a list of updates. The page a link resolves to depends only on
  which keys the registry has; \<open>updates\<close> lists, in the order of the pass, the entries
  (target key, backlink key, name) the pass stores, and \<open>apply_update\<close> stores one.
\<close>

definition target_of :: "(string \<rightharpoonup> page) \<Rightarrow> string \<Rightarrow> string option" where
  "target_of m link =
     (if m (''public'' @ link) \<noteq> None then Some (''public'' @ link)
      else if m (''public'' @ link @ ''/index.html'') \<noteq> None
        then Some (''public'' @ link @ ''/index.html'')
      else None)"

definition link_update ::
  "(string \<rightharpoonup> page) \<Rightarrow> page \<Rightarrow> string \<Rightarrow> (string \<times> string \<times> string) list" where
  "link_update m src link =
     (case target_of m link of
        None \<Rightarrow> []
      | Some k \<Rightarrow> [(k, backlink_key src, Name src)])"

definition page_updates ::
  "env \<Rightarrow> (string \<rightharpoonup> page) \<Rightarrow> string \<Rightarrow> (string \<times> string \<times> string) list" where
  "page_updates e m key =
     (case m key of
        None \<Rightarrow> []
      | Some src \<Rightarrow>
          if Type src \<noteq> [] then concat (map (link_update m src) (reHref e (Content src)))
          else [])"

definition updates ::
  "env \<Rightarrow> (string \<rightharpoonup> page) \<Rightarrow> string list \<Rightarrow> (string \<times> string \<times> string) list" where
  "updates e m order = concat (map (page_updates e m) order)"

definition apply_update ::
  "(string \<rightharpoonup> page) \<Rightarrow> string \<times> string \<times> string \<Rightarrow> (string \<rightharpoonup> page)" where
  "apply_update m u =
     (case u of (k, b, n) \<Rightarrow>
        (case m k of
           None \<Rightarrow> m
         | Some t \<Rightarrow> m(k \<mapsto> t\<lparr>Backlinks := (Backlinks t)(b \<mapsto> n)\<rparr>)))"

definition core :: "page \<Rightarrow> page" where
  "core p = p\<lparr>Backlinks := Map.empty\<rparr>"

definition similar :: "(string \<rightharpoonup> page) \<Rightarrow> (string \<rightharpoonup> page) \<Rightarrow> bool" where
  "similar m m' \<longleftrightarrow> (\<forall>k. map_option core (m k) = map_option core (m' k))"

definition bind_all :: "(string \<rightharpoonup> string) \<Rightarrow> (string \<times> string) list \<Rightarrow> (string \<rightharpoonup> string)" where
  "bind_all bl xs = foldl (\<lambda>bl (b, n). bl(b \<mapsto> n)) bl xs"

definition entries_for :: "string \<Rightarrow> (string \<times> string \<times> string) list \<Rightarrow> (string \<times> string) list" where
  "entries_for k us = map snd (filter (\<lambda>u. fst u = k) us)"

definition wf_pages :: "(string \<rightharpoonup> page) \<Rightarrow> bool" where
  "wf_pages m \<longleftrightarrow>
     (\<forall>k p. m k = Some p \<longrightarrow> k = registry_key p \<and> prefix ''public/'' (OutPath p))"

section \<open>Facts about the string helpers\<close>

lemma Replace_Nil: "Replace [] old new n = []"
  by (subst Replace.simps) simp

lemma Replace_stop: "n = 0 \<or> old = [] \<Longrightarrow> Replace s old new n = s"
  by (subst Replace.simps) simp

lemma Replace_hit:
  "n \<noteq> 0 \<Longrightarrow> old \<noteq> [] \<Longrightarrow> prefix old s \<Longrightarrow>
   Replace s old new n = new @ Replace (drop (length old) s) old new (n - 1)"
  by (subst Replace.simps) simp

lemma Replace_miss:
  "n \<noteq> 0 \<Longrightarrow> old \<noteq> [] \<Longrightarrow> \<not> prefix old (c # cs) \<Longrightarrow>
   Replace (c # cs) old new n = c # Replace cs old new n"
  by (subst Replace.simps) simp

lemma Replace_absent: "\<not> Contains s old \<Longrightarrow> Replace s old new n = s"
proof (induction s)
  case Nil
  then show ?case by (simp add: Replace_Nil)
next
  case (Cons c cs)
  show ?case
  proof (cases "n = 0 \<or> old = []")
    case True
    then show ?thesis by (rule Replace_stop)
  next
    case False
    with Cons show ?thesis by (simp add: Replace_miss)
  qed
qed

lemma set_Replace: "set (Replace s old new n) \<subseteq> set s \<union> set new"
proof (induction s old new n rule: Replace.induct)
  case (1 s old new n)
  show ?case
  proof (cases "n = 0 \<or> old = []")
    case True
    then show ?thesis by (simp add: Replace_stop)
  next
    case False
    show ?thesis
    proof (cases "prefix old s")
      case True
      have "set (drop (length old) s) \<subseteq> set s" by (rule set_drop_subset)
      with 1(1)[OF False True] False True show ?thesis
        by (simp add: Replace_hit) blast
    next
      case np: False
      show ?thesis
      proof (cases s)
        case Nil
        then show ?thesis by (simp add: Replace_Nil)
      next
        case (Cons c cs)
        with 1(2)[OF False np Cons] False np show ?thesis
          by (simp add: Replace_miss) blast
      qed
    qed
  qed
qed

lemma Replace_all_removes:
  "n < 0 \<Longrightarrow> c \<notin> set new \<Longrightarrow> c \<notin> set (Replace s [c] new n)"
proof (induction s arbitrary: n)
  case Nil
  then show ?case by (simp add: Replace_Nil)
next
  case (Cons d ds)
  show ?case
  proof (cases "d = c")
    case True
    have "Replace (d # ds) [c] new n = new @ Replace ds [c] new (n - 1)"
      using True Cons.prems(1) by (simp add: Replace_hit)
    moreover have "c \<notin> set (Replace ds [c] new (n - 1))"
      using Cons.prems by (intro Cons.IH) auto
    ultimately show ?thesis using Cons.prems(2) by simp
  next
    case False
    have "Replace (d # ds) [c] new n = d # Replace ds [c] new n"
      using False Cons.prems(1) by (simp add: Replace_miss)
    with False Cons show ?thesis by simp
  qed
qed

lemma lower_byte_idem: "lower_byte (lower_byte c) = lower_byte c"
  unfolding lower_byte_def upper_letters_def lower_letters_def
  by (auto split: option.splits)

lemma lower_byte_ascii: "\<not> digit7 c \<Longrightarrow> \<not> digit7 (lower_byte c)"
proof (cases "map_of (zip upper_letters lower_letters) c")
  case None
  then show "\<not> digit7 c \<Longrightarrow> \<not> digit7 (lower_byte c)" by (simp add: lower_byte_def)
next
  case (Some d)
  then have "d \<in> set lower_letters"
    by (meson map_of_SomeD set_zip_rightD)
  moreover have "list_all (\<lambda>d. \<not> digit7 d) lower_letters"
    by code_simp
  ultimately have "\<not> digit7 d" by (simp add: list_all_iff)
  with Some show ?thesis by (simp add: lower_byte_def)
qed

lemma ToLower_ascii: "is_ascii s \<Longrightarrow> ToLower u s = map lower_byte s"
  by (simp add: ToLower_def)

lemma ToLower_fixed:
  "is_ascii s \<Longrightarrow> (\<And>c. c \<in> set s \<Longrightarrow> lower_byte c = c) \<Longrightarrow> ToLower u s = s"
  by (simp add: ToLower_def map_idI)

lemma outPath_of_chars:
  assumes "is_ascii p" and "c \<in> set (outPath_of e p)"
  shows "lower_byte c = c \<and> c \<noteq> CHR '' '' \<and> \<not> digit7 c"
proof -
  define r1 where "r1 = Replace (map lower_byte p) ''content/'' [] 1"
  define r2 where "r2 = Replace r1 '' '' ''_'' (- 1)"
  define r3 where "r3 = Replace r2 ''.md'' ''.html'' 1"
  have out: "outPath_of e p = ''public/'' @ r3"
    by (simp add: outPath_of_def ToLower_ascii [OF assms(1)] r1_def r2_def r3_def)
  have "list_all (\<lambda>d. lower_byte d = d \<and> d \<noteq> CHR '' '' \<and> \<not> digit7 d) ''public/_.html''"
    by code_simp
  then have fixed_lit:
    "\<And>d. d \<in> set ''public/_.html'' \<Longrightarrow> lower_byte d = d \<and> d \<noteq> CHR '' '' \<and> \<not> digit7 d"
    unfolding list_all_iff by blast
  have s1: "set r1 \<subseteq> set (map lower_byte p)"
    using set_Replace [of "map lower_byte p" "''content/''" "[]" 1] by (simp add: r1_def)
  have low1: "\<And>d. d \<in> set r1 \<Longrightarrow> lower_byte d = d \<and> \<not> digit7 d"
    using s1 assms(1) by (auto simp: lower_byte_idem lower_byte_ascii is_ascii_def list_all_iff)
  have s2: "set r2 \<subseteq> set r1 \<union> set ''_''"
    unfolding r2_def by (rule set_Replace)
  have nosp2: "CHR '' '' \<notin> set r2"
    unfolding r2_def by (rule Replace_all_removes) simp_all
  have s3: "set r3 \<subseteq> set r2 \<union> set ''.html''"
    unfolding r3_def by (rule set_Replace)
  have lit: "set ''public/'' \<union> set ''_'' \<union> set ''.html'' \<subseteq> set ''public/_.html''"
    by code_simp
  from assms(2) out have "c \<in> set ''public/'' \<or> c \<in> set r3"
    by (simp only: set_append Un_iff)
  then have "c \<in> set ''public/'' \<union> set ''_'' \<union> set ''.html'' \<or> (c \<in> set r1 \<and> c \<in> set r2)"
    using s2 s3 by blast
  then consider "c \<in> set ''public/_.html''" | "c \<in> set r1" "c \<in> set r2"
    using lit by blast
  then show ?thesis
  proof cases
    case 1
    then show ?thesis by (rule fixed_lit)
  next
    case 2
    then show ?thesis using low1 nosp2 by auto
  qed
qed

lemma outPath_of_ascii:
  assumes "is_ascii p"
  shows "is_ascii (outPath_of e p)"
  unfolding is_ascii_def list_all_iff
proof
  fix c
  assume "c \<in> set (outPath_of e p)"
  from outPath_of_chars [OF assms this] show "\<not> digit7 c" by blast
qed

lemma Contains_single: "Contains s [c] \<longleftrightarrow> c \<in> set s"
proof (induction s)
  case Nil
  show ?case by simp
next
  case (Cons d ds)
  have "prefix [c] (d # ds) \<longleftrightarrow> c = d" by simp
  with Cons show ?case by (simp only: Contains.simps set_simps insert_iff)
qed

section \<open>The Path Mapper\<close>

text \<open>
  Claim C3. The claim describes the mapper as replacing the extension by the HTML extension
  exactly when the extension is the markdown extension. The code replaces the first
  occurrence of the three bytes \<^verbatim>\<open>.md\<close> anywhere in the lower-cased path. The theorem
  evaluates the code and the worded mapper at two paths where they part: a file with the
  extension \<^verbatim>\<open>.mdx\<close> is renamed, and a markdown file below a directory whose name
  contains \<^verbatim>\<open>.md\<close> keeps its markdown extension. Both paths are ASCII, so the result
  holds in every environment.
\<close>

theorem outPath_of_extension_divergence:
  "outPath_of e ''content/notes.mdx'' = ''public/notes.htmlx'' \<and>
   pathMapper_spec e ''content/notes.mdx'' = ''public/notes.mdx'' \<and>
   Ext ''notes.mdx'' \<noteq> ''.md'' \<and>
   outPath_of e ''content/v1.md/guide.md'' = ''public/v1.html/guide.md'' \<and>
   pathMapper_spec e ''content/v1.md/guide.md'' = ''public/v1.md/guide.html'' \<and>
   Ext ''guide.md'' = ''.md''"
  by code_simp

text \<open>
  Claim C9, as stated: mapping an already mapped path gives the same path. This fails,
  the output root is prefixed again.
\<close>

theorem outPath_of_not_idempotent:
  "outPath_of demo_env (outPath_of demo_env ''content/a.md'') \<noteq> outPath_of demo_env ''content/a.md''"
  by code_simp

text \<open>
  Claim C9, amended. For every path made of ASCII bytes: lower-casing and space substitution
  are idempotent on the mapped path; and when the mapped path contains neither
  \<^verbatim>\<open>content/\<close> nor \<^verbatim>\<open>.md\<close>, mapping it again only prefixes the output root once
  more. (Outside ASCII the lower-casing is the library's Unicode mapping, about which nothing
  is assumed here.)
\<close>

theorem outPath_of_remap:
  assumes "is_ascii p"
  shows "Replace (ToLower (unicode_lower e) (outPath_of e p)) '' '' ''_'' (- 1) = outPath_of e p \<and>
   (\<not> Contains (outPath_of e p) ''content/'' \<and> \<not> Contains (outPath_of e p) ''.md'' \<longrightarrow>
      outPath_of e (outPath_of e p) = ''public/'' @ outPath_of e p)"
proof -
  have low: "ToLower (unicode_lower e) (outPath_of e p) = outPath_of e p"
    using outPath_of_chars [OF assms] outPath_of_ascii [OF assms]
    by (intro ToLower_fixed) simp_all
  have "\<not> Contains (outPath_of e p) '' ''"
    using outPath_of_chars [OF assms, of "CHR '' ''" e] by (auto simp: Contains_single)
  then have sp: "Replace (outPath_of e p) '' '' ''_'' (- 1) = outPath_of e p"
    by (rule Replace_absent)
  have "outPath_of e (outPath_of e p) = ''public/'' @ outPath_of e p"
    if "\<not> Contains (outPath_of e p) ''content/''" "\<not> Contains (outPath_of e p) ''.md''"
  proof -
    have a: "Replace (outPath_of e p) ''content/'' [] 1 = outPath_of e p"
      using that(1) by (rule Replace_absent)
    have b: "Replace (outPath_of e p) ''.md'' ''.html'' 1 = outPath_of e p"
      using that(2) by (rule Replace_absent)
    show ?thesis
      by (subst outPath_of_def) (simp only: low a sp b)
  qed
  with low sp show ?thesis by simp
qed

theorem outPath_of_remap_witness:
  "is_ascii ''content/My Dir/A b.md'' \<and>
   Replace (ToLower (unicode_lower demo_env) (outPath_of demo_env ''content/My Dir/A b.md''))
       '' '' ''_'' (- 1)
     = ''public/my_dir/a_b.html'' \<and>
   \<not> Contains ''public/my_dir/a_b.html'' ''content/'' \<and>
   \<not> Contains ''public/my_dir/a_b.html'' ''.md'' \<and>
   outPath_of demo_env ''public/my_dir/a_b.html'' = ''public/public/my_dir/a_b.html''"
proof -
  have i: "is_ascii ''content/My Dir/A b.md''" by code_simp
  have v: "outPath_of demo_env ''content/My Dir/A b.md'' = ''public/my_dir/a_b.html''"
    by code_simp
  have c1: "\<not> Contains ''public/my_dir/a_b.html'' ''content/''" by code_simp
  have c2: "\<not> Contains ''public/my_dir/a_b.html'' ''.md''" by code_simp
  show ?thesis
    using outPath_of_remap [OF i, of demo_env] i c1 c2 unfolding v by simp
qed

section \<open>The compile pass, by projections\<close>

lemma fst_parseDirectoryContent:
  "fst (parseDirectoryContent e directory parent listing st) =
     (case listing of None \<Rightarrow> [Fatal]
      | Some inodes \<Rightarrow> Mkdir ''public'' # fst (parseInodes e directory parent inodes st))"
  by (cases listing) (simp_all add: case_prod_beta)

lemma snd_parseDirectoryContent:
  "snd (parseDirectoryContent e directory parent listing st) =
     (case listing of None \<Rightarrow> None
      | Some inodes \<Rightarrow> snd (parseInodes e directory parent inodes st))"
  by (cases listing) (simp_all add: case_prod_beta)

lemma fst_parseInodes_File:
  "fst (parseInodes e directory parent (File name src # rest) st) =
     fst (parseFile e directory parent name src st) @
       (case snd (parseFile e directory parent name src st) of
          None \<Rightarrow> []
        | Some st' \<Rightarrow> fst (parseInodes e directory parent rest st'))"
  by (simp add: case_prod_beta split: option.splits)

lemma snd_parseInodes_File:
  "snd (parseInodes e directory parent (File name src # rest) st) =
     (case snd (parseFile e directory parent name src st) of
        None \<Rightarrow> None
      | Some st' \<Rightarrow> snd (parseInodes e directory parent rest st'))"
  by (simp add: case_prod_beta split: option.splits)

lemma fst_parseInodes_Dir:
  "fst (parseInodes e directory parent (Dir name listing # rest) st) =
     (if \<not> mkdir_ok e (outPath_of e (directory @ ''/'' @ name)) then
        Mkdir (outPath_of e (directory @ ''/'' @ name))
        # Log (''[gen/process/dir] unable to create directory ''
               @ outPath_of e (directory @ ''/'' @ name))
        # fst (parseInodes e directory parent rest st)
      else
        Mkdir (outPath_of e (directory @ ''/'' @ name))
        # Log (''[gen/process/dir] created directory '' @ outPath_of e (directory @ ''/'' @ name))
        # fst (parseDirectoryContent e (directory @ ''/'' @ name)
                 (childName directory parent) listing st)
        @ (case snd (parseDirectoryContent e (directory @ ''/'' @ name)
                       (childName directory parent) listing st) of
             None \<Rightarrow> []
           | Some st' \<Rightarrow> fst (parseInodes e directory parent rest st')))"
  by (simp add: Let_def case_prod_beta split: option.splits)

lemma snd_parseInodes_Dir:
  "snd (parseInodes e directory parent (Dir name listing # rest) st) =
     (if \<not> mkdir_ok e (outPath_of e (directory @ ''/'' @ name)) then
        snd (parseInodes e directory parent rest st)
      else
        (case snd (parseDirectoryContent e (directory @ ''/'' @ name)
                     (childName directory parent) listing st) of
           None \<Rightarrow> None
         | Some st' \<Rightarrow> snd (parseInodes e directory parent rest st')))"
  by (simp add: Let_def case_prod_beta split: option.splits)

lemmas parse_fst = fst_parseDirectoryContent fst_parseInodes_File fst_parseInodes_Dir
lemmas parse_snd = snd_parseDirectoryContent snd_parseInodes_File snd_parseInodes_Dir

lemma parse_induct [case_names Listing Nil File Dir]:
  assumes step_listing: "\<And>e directory parent listing st.
      (\<And>inodes. listing = Some inodes \<Longrightarrow> Q e directory parent inodes st)
      \<Longrightarrow> P e directory parent listing st"
    and step_nil: "\<And>e directory parent st. Q e directory parent [] st"
    and step_file: "\<And>e directory parent name src rest st.
      (\<And>st'. snd (parseFile e directory parent name src st) = Some st'
          \<Longrightarrow> Q e directory parent rest st')
      \<Longrightarrow> Q e directory parent (File name src # rest) st"
    and step_dir: "\<And>e directory parent name listing rest st.
      (\<not> mkdir_ok e (outPath_of e (directory @ ''/'' @ name)) \<Longrightarrow> Q e directory parent rest st)
      \<Longrightarrow> (mkdir_ok e (outPath_of e (directory @ ''/'' @ name)) \<Longrightarrow>
            P e (directory @ ''/'' @ name)
              (childName directory parent) listing st)
      \<Longrightarrow> (\<And>st'. mkdir_ok e (outPath_of e (directory @ ''/'' @ name)) \<Longrightarrow>
            snd (parseDirectoryContent e (directory @ ''/'' @ name)
                   (childName directory parent) listing st) = Some st'
            \<Longrightarrow> Q e directory parent rest st')
      \<Longrightarrow> Q e directory parent (Dir name listing # rest) st"
  shows "P e directory parent listing st" and "Q e directory parent inodes st"
proof (induction e directory parent listing st and e directory parent inodes st
    rule: parseDirectoryContent_parseInodes.induct)
  case (1 e directory parent st)
  show ?case by (rule step_listing) simp
next
  case (2 e directory parent inodes st)
  then show ?case by (intro step_listing) simp
next
  case (3 e directory parent st)
  show ?case by (rule step_nil)
next
  case (4 e directory parent name src rest st)
  show ?case
  proof (rule step_file)
    fix st'
    assume s: "snd (parseFile e directory parent name src st) = Some st'"
    show "Q e directory parent rest st'"
      by (rule 4 [OF prod.collapse s])
  qed
next
  case (5 e directory parent name listing rest st)
  show ?case
  proof (rule step_dir)
    assume "\<not> mkdir_ok e (outPath_of e (directory @ ''/'' @ name))"
    then show "Q e directory parent rest st"
      by (rule 5(1) [OF refl refl])
  next
    assume "mkdir_ok e (outPath_of e (directory @ ''/'' @ name))"
    then have nn: "\<not> \<not> mkdir_ok e (outPath_of e (directory @ ''/'' @ name))" by simp
    show "P e (directory @ ''/'' @ name)
        (childName directory parent) listing st"
      by (rule 5(2) [OF refl refl nn])
  next
    fix st'
    assume "mkdir_ok e (outPath_of e (directory @ ''/'' @ name))"
      and s: "snd (parseDirectoryContent e (directory @ ''/'' @ name)
                   (childName directory parent) listing st) = Some st'"
    then have nn: "\<not> \<not> mkdir_ok e (outPath_of e (directory @ ''/'' @ name))" by simp
    show "Q e directory parent rest st'"
      by (rule 5(3) [OF refl refl nn prod.collapse s])
  qed
qed

declare parseDirectoryContent.simps [simp del] parseInodes.simps(2,3) [simp del]

section \<open>Effects of the passes\<close>

lemma NewPage_events: "list_all compile_event (fst (NewPage e path outPath name))"
  by (simp add: NewPage_def split: option.splits)

lemma copyFile_events: "list_all compile_event (fst (copyFile e src outPath st))"
  by (simp add: copyFile_def split: option.splits)

lemma parseFile_events: "list_all compile_event (fst (parseFile e directory parent name src st))"
proof -
  have n: "list_all compile_event (fst (NewPage e path outPath nm))" for path outPath nm
    by (rule NewPage_events)
  have c: "list_all compile_event (fst (copyFile e src outPath s))" for outPath s
    by (rule copyFile_events)
  show ?thesis
    unfolding parseFile_def Let_def register_def
    using n c
    by (auto split: option.splits prod.splits sum.splits simp: list_all_iff dest!: arg_cong [where f = fst])
qed

lemma parse_events:
  "list_all compile_event (fst (parseDirectoryContent e directory parent listing st))"
  "list_all compile_event (fst (parseInodes e directory parent inodes st))"
proof (induction e directory parent listing st and e directory parent inodes st
    rule: parse_induct)
  case (Listing e directory parent listing st)
  then show ?case by (cases listing) (simp_all add: fst_parseDirectoryContent)
next
  case (Nil e directory parent st)
  show ?case by simp
next
  case (File e directory parent name src rest st)
  then show ?case
    by (simp add: fst_parseInodes_File parseFile_events split: option.splits)
next
  case (Dir e directory parent name listing rest st)
  then show ?case
    by (simp add: fst_parseInodes_Dir split: option.splits)
qed

section \<open>Display names\<close>

lemma NewPage_ok:
  "navigation_partial e = Some nav \<Longrightarrow> static_partial e = Some si \<Longrightarrow>
   NewPage e path outPath name =
     ([Load ''template/navigation.html'', Load ''template/static.html''],
      Inr \<lparr>Path = path, OutPath = outPath, Name = name, Type = [],
           Backlinks = Map.empty, Content = [], Navigation = nav, Footer = [],
           StaticImports = si\<rparr>)"
  by (simp add: NewPage_def)

text \<open>
  Claim C8, as stated: a file whose base name equals the index token under case-insensitive
  comparison gets the inherited display name. The comparison in the code is exact:
  \<^verbatim>\<open>Index.md\<close> lower-cases to the index token and still keeps its own name.
\<close>

theorem index_name_case_sensitive:
  "ToLower (unicode_lower demo_env) (TrimSuffix ''Index.md'' (Ext ''Index.md'')) = ''index'' \<and>
   (case snd (parseFile demo_env ''content'' ''Oliver'' ''Index.md'' (Some ''text'') empty_store) of
      None \<Rightarrow> None
    | Some st \<Rightarrow> map_option Name (pages st ''public/index.html'')) = Some ''Index''"
  by code_simp

text \<open>
  Claim C8, amended. For every file that is read and registered, the registered page's name
  is the inherited display name when the file name without its extension is exactly
  \<^verbatim>\<open>index\<close> (compared byte for byte), and the file name without its extension otherwise.
\<close>

theorem parseFile_display_name:
  assumes "navigation_partial e = Some nav" and "static_partial e = Some si"
    and "parseFile e directory parent name (Some s) st = (ev, Some st')"
  shows "map_option Name
           (pages st' (Replace (outPath_of e (directory @ ''/'' @ name)) ''/content'' [] 1))
         = Some (if TrimSuffix name (Ext name) = ''index'' then parent
                 else TrimSuffix name (Ext name))"
  using assms(3)
  unfolding parseFile_def Let_def NewPage_ok [OF assms(1,2)]
  by (auto simp: register_def registry_key_def copyFile_def split: if_splits prod.splits option.splits)

theorem parseFile_display_name_witness:
  "navigation_partial demo_env = Some ''nav'' \<and> static_partial demo_env = Some ''static'' \<and>
   (case snd (parseFile demo_env ''content/blog'' ''Oliver'' ''index.md'' (Some ''plain'')
               empty_store) of
      None \<Rightarrow> None
    | Some st \<Rightarrow> map_option Name (pages st ''public/blog/index.html'')) = Some ''Oliver''"
proof -
  have n: "navigation_partial demo_env = Some ''nav''"
    and s: "static_partial demo_env = Some ''static''"
    by (simp_all add: demo_env_def)
  have "snd (parseFile demo_env ''content/blog'' ''Oliver'' ''index.md'' (Some ''plain'')
          empty_store) \<noteq> None"
    by code_simp
  then obtain ev st' where run:
    "parseFile demo_env ''content/blog'' ''Oliver'' ''index.md'' (Some ''plain'') empty_store
       = (ev, Some st')"
    by (metis option.exhaust prod.collapse)
  have k: "Replace (outPath_of demo_env (''content/blog'' @ ''/'' @ ''index.md'')) ''/content'' [] 1
             = ''public/blog/index.html''"
    by code_simp
  have t: "TrimSuffix ''index.md'' (Ext ''index.md'') = ''index''"
    by code_simp
  show ?thesis
    using parseFile_display_name [OF n s run] n s run unfolding k t by simp
qed

lemma resolve_link_events: "list_all later_event (fst (resolve_link src link st))"
  by (simp add: resolve_link_def Let_def split: option.splits)

lemma resolve_links_events: "list_all later_event (fst (resolve_links src links st))"
proof (induction links arbitrary: st)
  case Nil
  show ?case by simp
next
  case (Cons link links)
  then show ?case by (simp add: case_prod_beta resolve_link_events)
qed

lemma resolve_page_events: "list_all later_event (fst (resolve_page e key st))"
  by (simp add: resolve_page_def case_prod_beta resolve_links_events split: option.splits)

lemma resolve_all_events: "list_all later_event (fst (resolve_all e order st))"
proof (induction order arbitrary: st)
  case Nil
  show ?case by simp
next
  case (Cons key order)
  then show ?case by (simp add: case_prod_beta resolve_page_events)
qed

lemma write_template_events: "list_all later_event (fst (write_template e tpl p fs))"
  by (simp add: write_template_def split: exec_result.splits)

lemma Render_events: "list_all later_event (fst (Render ft mt e p fs))"
  by (simp add: Render_def Let_def renderMd_def renderHtml_def case_prod_beta
      write_template_events split: option.splits)

lemma render_all_events: "list_all later_event (fst (render_all ft mt e order st))"
proof (induction order arbitrary: st)
  case Nil
  show ?case by simp
next
  case (Cons key order)
  then show ?case by (simp add: case_prod_beta Render_events split: option.splits)
qed

lemma compile_event_not_backlink: "compile_event ev \<Longrightarrow> \<not> is_backlink ev"
  by (cases ev) simp_all

lemma later_event_not_insert: "later_event ev \<Longrightarrow> \<not> is_insert ev"
  by (cases ev) simp_all

lemma no_insert_after_backlink:
  assumes "\<And>ev. ev \<in> set xs \<Longrightarrow> \<not> is_backlink ev" and "\<And>ev. ev \<in> set ys \<Longrightarrow> \<not> is_insert ev"
  shows "filter is_insert (dropWhile (\<lambda>ev. \<not> is_backlink ev) (xs @ ys)) = []"
proof -
  have "dropWhile (\<lambda>ev. \<not> is_backlink ev) (xs @ ys) = dropWhile (\<lambda>ev. \<not> is_backlink ev) ys"
    using assms(1) by (intro dropWhile_append2) simp
  moreover have "\<not> is_insert ev" if "ev \<in> set (dropWhile (\<lambda>ev. \<not> is_backlink ev) ys)" for ev
    using set_dropWhileD [OF that] assms(2) by simp
  ultimately show ?thesis by (simp add: filter_empty_conv)
qed

section \<open>The shape of a run\<close>

lemma main_cases [case_names NoMarkdown NoFooter Fatal Finished]:
  obtains
    (NoMarkdown) "markdown_template e = None"
      "main e root order1 order2 =
         ([Load ''template/markdown.html'',
           Log ''[gen/init/template] unable to open markdown template''], Returned)"
  | (NoFooter) mt where "markdown_template e = Some mt" "footer_template e = None"
      "main e root order1 order2 =
         ([Load ''template/markdown.html'',
           Log ''[gen/init/template] opened markdown template'',
           Load ''template/footer.html'',
           Log ''[gen/init/template] unable to open footer template''], Returned)"
  | (Fatal) mt ft ev1 where "markdown_template e = Some mt" "footer_template e = Some ft"
      "parseDirectoryContent e ''content'' ''Oliver'' root empty_store = (ev1, None)"
      "main e root order1 order2 = (init_events @ ev1, Exited)"
  | (Finished) mt ft ev1 st1 where "markdown_template e = Some mt" "footer_template e = Some ft"
      "parseDirectoryContent e ''content'' ''Oliver'' root empty_store = (ev1, Some st1)"
      "main e root order1 order2 =
         (init_events @ ev1 @ Log ''[gen/parse] parsed pages'' # fst (resolve_all e order1 st1)
            @ fst (render_all ft mt e order2 (snd (resolve_all e order1 st1))),
          Finished (snd (render_all ft mt e order2 (snd (resolve_all e order1 st1)))))"
proof (cases "markdown_template e")
  case None
  then show ?thesis by (intro NoMarkdown) (simp_all add: main_def)
next
  case md: (Some mt)
  show ?thesis
  proof (cases "footer_template e")
    case None
    with md show ?thesis by (intro NoFooter) (simp_all add: main_def)
  next
    case ft: (Some ftpl)
    obtain ev1 r where c: "parseDirectoryContent e ''content'' ''Oliver'' root empty_store = (ev1, r)"
      by (cases "parseDirectoryContent e ''content'' ''Oliver'' root empty_store")
    show ?thesis
    proof (cases r)
      case None
      with md ft c show ?thesis by (intro Fatal) (simp_all add: main_def)
    next
      case (Some st1)
      with md ft c show ?thesis
        by (intro Finished) (simp_all add: main_def case_prod_beta)
    qed
  qed
qed

section \<open>Backlinks stay empty during the compile pass\<close>

lemma snd_parseFile:
  "snd (parseFile e directory parent name src st) =
     (case src of
        None \<Rightarrow> Some st
      | Some s \<Rightarrow>
          (case snd (NewPage e (directory @ ''/'' @ name) (outPath_of e (directory @ ''/'' @ name))
                       (TrimSuffix name (Ext name))) of
             Inl err \<Rightarrow> Some st
           | Inr p0 \<Rightarrow>
               (let p = (if Name p0 = ''index'' then p0\<lparr>Name := parent\<rparr> else p0)
                in if Ext name = ''.html'' then
                     snd (register (p\<lparr>Type := ''HTML''\<rparr>) st)
                   else if Ext name = ''.md'' then
                     snd (register (p\<lparr>Content := markdown2html e s, Type := ''MD''\<rparr>) st)
                   else
                     (case snd (copyFile e src (outPath_of e (directory @ ''/'' @ name)) st) of
                        None \<Rightarrow> None
                      | Some st2 \<Rightarrow> snd (register p st2)))))"
  by (simp add: parseFile_def Let_def case_prod_beta split: option.splits sum.splits)

lemma NewPage_Backlinks: "snd (NewPage e path outPath name) = Inr p0 \<Longrightarrow> Backlinks p0 = Map.empty"
  by (auto simp: NewPage_def Let_def split: option.splits)

lemma register_no_backlinks:
  "no_backlinks st \<Longrightarrow> Backlinks p = Map.empty \<Longrightarrow> snd (register p st) = Some st'
     \<Longrightarrow> no_backlinks st'"
  by (auto simp: register_def no_backlinks_def split: if_splits)

lemma copyFile_pages: "snd (copyFile e src outPath st) = Some st2 \<Longrightarrow> pages st2 = pages st"
  by (auto simp: copyFile_def split: option.splits if_splits)

lemma parseFile_no_backlinks:
  assumes inv: "no_backlinks st" and run: "snd (parseFile e directory parent name src st) = Some st'"
  shows "no_backlinks st'"
proof (cases src)
  case None
  with assms show ?thesis by (simp add: snd_parseFile)
next
  case (Some s)
  let ?np = "snd (NewPage e (directory @ ''/'' @ name) (outPath_of e (directory @ ''/'' @ name))
                       (TrimSuffix name (Ext name)))"
  show ?thesis
  proof (cases ?np)
    case (Inl err)
    with Some assms show ?thesis by (simp add: snd_parseFile)
  next
    case (Inr p0)
    define p where "p = (if Name p0 = ''index'' then p0\<lparr>Name := parent\<rparr> else p0)"
    have b: "Backlinks p = Map.empty"
      using NewPage_Backlinks [OF Inr] by (simp add: p_def)
    consider (html) "Ext name = ''.html''"
      | (md) "Ext name \<noteq> ''.html''" "Ext name = ''.md''"
      | (other) "Ext name \<noteq> ''.html''" "Ext name \<noteq> ''.md''"
      by blast
    then show ?thesis
    proof cases
      case html
      with run Some Inr have "snd (register (p\<lparr>Type := ''HTML''\<rparr>) st) = Some st'"
        by (simp add: snd_parseFile p_def Let_def)
      with inv b show ?thesis by (intro register_no_backlinks [of st _ st']) simp_all
    next
      case md
      with run Some Inr
      have "snd (register (p\<lparr>Content := markdown2html e s, Type := ''MD''\<rparr>) st) = Some st'"
        by (simp add: snd_parseFile p_def Let_def)
      with inv b show ?thesis by (intro register_no_backlinks [of st _ st']) simp_all
    next
      case other
      with run Some Inr obtain st2 where
        c: "snd (copyFile e src (outPath_of e (directory @ ''/'' @ name)) st) = Some st2"
        and r: "snd (register p st2) = Some st'"
        by (simp add: snd_parseFile p_def Let_def split: option.splits)
      from copyFile_pages [OF c] inv have "no_backlinks st2" by (simp add: no_backlinks_def)
      with r b show ?thesis by (intro register_no_backlinks [of st2 p st']) simp_all
    qed
  qed
qed

lemma parse_no_backlinks:
  "no_backlinks st \<Longrightarrow> snd (parseDirectoryContent e directory parent listing st) = Some st'
     \<Longrightarrow> no_backlinks st'"
  "no_backlinks st \<Longrightarrow> snd (parseInodes e directory parent inodes st) = Some st'
     \<Longrightarrow> no_backlinks st'"
proof (induction e directory parent listing st and e directory parent inodes st
    arbitrary: st' and st' rule: parse_induct)
  case (Listing e directory parent listing st)
  then show ?case by (cases listing) (simp_all add: snd_parseDirectoryContent)
next
  case (Nil e directory parent st)
  then show ?case by simp
next
  case (File e directory parent name src rest st)
  from File.prems(2) obtain st1 where a: "snd (parseFile e directory parent name src st) = Some st1"
    and b: "snd (parseInodes e directory parent rest st1) = Some st'"
    by (simp add: snd_parseInodes_File split: option.splits)
  from parseFile_no_backlinks [OF File.prems(1) a] have "no_backlinks st1" .
  from File.IH [OF a this b] show ?case .
next
  case (Dir e directory parent name listing rest st)
  show ?case
  proof (cases "mkdir_ok e (outPath_of e (directory @ ''/'' @ name))")
    case False
    with Dir.prems(2) have "snd (parseInodes e directory parent rest st) = Some st'"
      by (simp add: snd_parseInodes_Dir)
    from Dir.IH(1) [OF False Dir.prems(1) this] show ?thesis .
  next
    case True
    with Dir.prems(2) obtain st1 where
      a: "snd (parseDirectoryContent e (directory @ ''/'' @ name) (childName directory parent)
                 listing st) = Some st1"
      and b: "snd (parseInodes e directory parent rest st1) = Some st'"
      by (simp add: snd_parseInodes_Dir split: option.splits)
    from Dir.IH(2) [OF True Dir.prems(1) a] have "no_backlinks st1" .
    from Dir.IH(3) [OF True a this b] show ?thesis .
  qed
qed

lemma no_backlinks_empty: "no_backlinks empty_store"
  by (simp add: no_backlinks_def empty_store_def)

section \<open>The render step of a page without a type\<close>

lemma write_template_other_path:
  "OutPath p \<noteq> q \<Longrightarrow> snd (write_template e tpl p fs) q = fs q"
  by (simp add: write_template_def split: exec_result.splits)

lemma Render_page: "fst (snd (Render ft mt e p fs)) = p\<lparr>Footer := ft p\<rparr>"
  by (simp add: Render_def Let_def case_prod_beta)

lemma Render_other_path:
  assumes "(Type p = ''HTML'' \<or> Type p = ''MD'') \<longrightarrow> OutPath p \<noteq> q"
  shows "snd (snd (Render ft mt e p fs)) q = fs q"
proof -
  have "snd (write_template e tpl (p\<lparr>Footer := ft p\<rparr>) fs) q = fs q"
    if "OutPath p \<noteq> q" for tpl
    using that by (intro write_template_other_path) simp
  with assms show ?thesis
    by (auto simp: Render_def Let_def case_prod_beta renderMd_def renderHtml_def
        split: option.splits)
qed

lemma render_all_other_path:
  assumes "\<And>key p. key \<in> set order \<Longrightarrow> pages st key = Some p \<Longrightarrow>
             Type p = ''HTML'' \<or> Type p = ''MD'' \<Longrightarrow> OutPath p \<noteq> q"
  shows "files (snd (render_all ft mt e order st)) q = files st q"
  using assms
proof (induction order arbitrary: st)
  case Nil
  show ?case by simp
next
  case (Cons key order)
  show ?case
  proof (cases "pages st key")
    case None
    have "files (snd (render_all ft mt e order st)) q = files st q"
    proof (rule Cons.IH)
      fix k p
      assume "k \<in> set order" "pages st k = Some p" "Type p = ''HTML'' \<or> Type p = ''MD''"
      then show "OutPath p \<noteq> q" by (intro Cons.prems [of k p]) simp_all
    qed
    with None show ?thesis by simp
  next
    case (Some p)
    define p' where "p' = fst (snd (Render ft mt e p (files st)))"
    define fs' where "fs' = snd (snd (Render ft mt e p (files st)))"
    define st' where "st' = st\<lparr>pages := (pages st)(key \<mapsto> p'), files := fs'\<rparr>"
    have p': "p' = p\<lparr>Footer := ft p\<rparr>" by (simp add: p'_def Render_page)
    have own: "Type p = ''HTML'' \<or> Type p = ''MD'' \<Longrightarrow> OutPath p \<noteq> q"
      by (intro Cons.prems [of key p]) (simp_all add: Some)
    then have "(Type p = ''HTML'' \<or> Type p = ''MD'') \<longrightarrow> OutPath p \<noteq> q" by blast
    then have fs': "fs' q = files st q"
      unfolding fs'_def by (rule Render_other_path)
    have "files (snd (render_all ft mt e order st')) q = files st' q"
    proof (rule Cons.IH)
      fix k r
      assume k: "k \<in> set order" and r: "pages st' k = Some r"
        and t: "Type r = ''HTML'' \<or> Type r = ''MD''"
      show "OutPath r \<noteq> q"
      proof (cases "k = key")
        case True
        with r have "r = p'" by (simp add: st'_def)
        with t p' have "Type p = ''HTML'' \<or> Type p = ''MD''" and "OutPath r = OutPath p"
          by simp_all
        with own show ?thesis by simp
      next
        case False
        with r have "pages st k = Some r" by (simp add: st'_def)
        with k t show ?thesis by (intro Cons.prems [of k r]) simp_all
      qed
    qed
    moreover have "snd (render_all ft mt e (key # order) st) = snd (render_all ft mt e order st')"
      using Some by (simp add: case_prod_beta st'_def p'_def fs'_def)
    ultimately show ?thesis by (simp add: st'_def fs')
  qed
qed

text \<open>
  Claim C10, as stated: because \<^verbatim>\<open>Render\<close> on a page without a type writes nothing, bytes
  copied during the compile pass are never overwritten by the render pass. The conclusion
  fails: \<^verbatim>\<open>a.MD\<close> is opaque and is copied to \<^verbatim>\<open>public/a.html\<close>; \<^verbatim>\<open>a.md\<close> is a markdown
  page with the same output path and registry key, and its rendering replaces the copy.
\<close>

theorem copied_bytes_overwritten:
  "(case snd (parseDirectoryContent demo_env ''content'' ''Oliver'' clash_tree empty_store) of
      None \<Rightarrow> None
    | Some st \<Rightarrow> files st ''public/a.html'') = Some ''RAW'' \<and>
   (case snd (main demo_env clash_tree clash_order clash_order) of
      Finished st \<Rightarrow> files st ''public/a.html''
    | _ \<Rightarrow> None) = Some ''textfooter''"
  by code_simp

text \<open>
  Claim C10, amended. Calling \<^verbatim>\<open>Render\<close> on a page whose \<^verbatim>\<open>Type\<close> is neither \<^verbatim>\<open>HTML\<close>
  nor \<^verbatim>\<open>MD\<close> has no effect on the output files and changes the page in its \<^verbatim>\<open>Footer\<close>
  field only. The render pass as a whole leaves the bytes at an output path as they were
  whenever no page it visits that has type \<^verbatim>\<open>HTML\<close> or \<^verbatim>\<open>MD\<close> has that output path;
  bytes copied during the compile pass can be overwritten only through such a page.
\<close>

theorem Render_other_type_frame:
  "(Type p \<noteq> ''HTML'' \<and> Type p \<noteq> ''MD'' \<longrightarrow>
      Render footerTemplate mdTemplate e p fs = ([], p\<lparr>Footer := footerTemplate p\<rparr>, fs)) \<and>
   ((\<forall>key r. key \<in> set order \<and> pages st key = Some r \<and>
         (Type r = ''HTML'' \<or> Type r = ''MD'') \<longrightarrow> OutPath r \<noteq> q) \<longrightarrow>
      files (snd (render_all footerTemplate mdTemplate e order st)) q = files st q)"
proof (intro conjI impI)
  assume "Type p \<noteq> ''HTML'' \<and> Type p \<noteq> ''MD''"
  then show "Render footerTemplate mdTemplate e p fs = ([], p\<lparr>Footer := footerTemplate p\<rparr>, fs)"
    by (simp add: Render_def)
next
  assume a: "\<forall>key r. key \<in> set order \<and> pages st key = Some r \<and>
         (Type r = ''HTML'' \<or> Type r = ''MD'') \<longrightarrow> OutPath r \<noteq> q"
  show "files (snd (render_all footerTemplate mdTemplate e order st)) q = files st q"
  proof (rule render_all_other_path)
    fix key r
    assume "key \<in> set order" "pages st key = Some r" "Type r = ''HTML'' \<or> Type r = ''MD''"
    with a show "OutPath r \<noteq> q" by blast
  qed
qed

theorem Render_other_type_frame_witness:
  "Type demo_page \<noteq> ''HTML'' \<and> Type demo_page \<noteq> ''MD'' \<and>
   Render (\<lambda>p. ''footer'') (\<lambda>p. Written (Content p)) demo_env demo_page
      [''public/readme.txt'' \<mapsto> ''hi'']
     = ([], demo_page\<lparr>Footer := ''footer''\<rparr>, [''public/readme.txt'' \<mapsto> ''hi'']) \<and>
   map_option Type (pages asset_store ''public/readme.txt'') = Some [] \<and>
   files asset_store ''public/readme.txt'' = Some ''hi'' \<and>
   files (snd (render_all (\<lambda>p. ''footer'') (\<lambda>p. Written (Content p)) demo_env
                 [''public/readme.txt''] asset_store)) ''public/readme.txt'' = Some ''hi''"
proof -
  have a: "Type demo_page \<noteq> ''HTML'' \<and> Type demo_page \<noteq> ''MD''"
    by (simp add: demo_page_def)
  have b: "\<forall>key r. key \<in> set [''public/readme.txt''] \<and> pages asset_store key = Some r \<and>
         (Type r = ''HTML'' \<or> Type r = ''MD'') \<longrightarrow> OutPath r \<noteq> ''public/readme.txt''"
    by (simp add: asset_store_def demo_page_def)
  have c: "files asset_store ''public/readme.txt'' = Some ''hi''"
    by (simp add: asset_store_def)
  show ?thesis
    using Render_other_type_frame [of demo_page "\<lambda>p. ''footer''" "\<lambda>p. Written (Content p)"
        demo_env "[''public/readme.txt'' \<mapsto> ''hi'']" "[''public/readme.txt'']" asset_store
        "''public/readme.txt''"] a b c
    by (simp add: asset_store_def demo_page_def)
qed

section \<open>Phase order\<close>

text \<open>
  Claim C1. In every run, once the first backlink has been recorded no page is inserted into
  the registry any more: the trace of \<^verbatim>\<open>main\<close> holds no \<^verbatim>\<open>Insert\<close> effect after its first
  \<^verbatim>\<open>Backlink\<close> effect. And when the compile pass returns, every page of the registry still
  has an empty backlinks map, so the backlink pass starts from the complete registry with
  nothing recorded.
\<close>

theorem compile_before_backlinks:
  "filter is_insert (dropWhile (\<lambda>ev. \<not> is_backlink ev) (fst (main e root order1 order2))) = [] \<and>
   (\<forall>ev st key p.
      parseDirectoryContent e ''content'' ''Oliver'' root empty_store = (ev, Some st) \<longrightarrow>
      pages st key = Some p \<longrightarrow> Backlinks p = Map.empty)"
proof
  have init: "\<not> is_backlink ev" if "ev \<in> set init_events" for ev
    using that by (auto simp: init_events_def)
  show "filter is_insert (dropWhile (\<lambda>ev. \<not> is_backlink ev) (fst (main e root order1 order2))) = []"
  proof (cases e root order1 order2 rule: main_cases)
    case NoMarkdown
    then show ?thesis by simp
  next
    case (NoFooter mt)
    then show ?thesis by simp
  next
    case (Fatal mt ft ev1)
    have "list_all compile_event ev1"
      using parse_events(1) [of e "''content''" "''Oliver''" root empty_store] Fatal(3) by simp
    then have "\<not> is_backlink ev" if "ev \<in> set (init_events @ ev1)" for ev
      using that init by (auto simp: list_all_iff compile_event_not_backlink)
    then have "filter is_insert (dropWhile (\<lambda>ev. \<not> is_backlink ev) ((init_events @ ev1) @ [])) = []"
      by (intro no_insert_after_backlink) simp_all
    with Fatal(4) show ?thesis by simp
  next
    case (Finished mt ft ev1 st1)
    define later where "later = Log ''[gen/parse] parsed pages'' # fst (resolve_all e order1 st1)
            @ fst (render_all ft mt e order2 (snd (resolve_all e order1 st1)))"
    have "list_all compile_event ev1"
      using parse_events(1) [of e "''content''" "''Oliver''" root empty_store] Finished(3) by simp
    then have a: "\<not> is_backlink ev" if "ev \<in> set (init_events @ ev1)" for ev
      using that init by (auto simp: list_all_iff compile_event_not_backlink)
    have "list_all later_event later"
      by (simp add: later_def resolve_all_events render_all_events)
    then have b: "\<not> is_insert ev" if "ev \<in> set later" for ev
      using that by (auto simp: list_all_iff later_event_not_insert)
    have "filter is_insert (dropWhile (\<lambda>ev. \<not> is_backlink ev) ((init_events @ ev1) @ later)) = []"
      using a b by (rule no_insert_after_backlink)
    with Finished(4) show ?thesis by (simp add: later_def)
  qed
next
  show "\<forall>ev st key p.
      parseDirectoryContent e ''content'' ''Oliver'' root empty_store = (ev, Some st) \<longrightarrow>
      pages st key = Some p \<longrightarrow> Backlinks p = Map.empty"
  proof (intro allI impI)
    fix ev st key p
    assume run: "parseDirectoryContent e ''content'' ''Oliver'' root empty_store = (ev, Some st)"
      and p: "pages st key = Some p"
    from run have "snd (parseDirectoryContent e ''content'' ''Oliver'' root empty_store) = Some st"
      by simp
    from parse_no_backlinks(1) [OF no_backlinks_empty this] p
    show "Backlinks p = Map.empty" by (simp add: no_backlinks_def)
  qed
qed

theorem compile_before_backlinks_witness:
  "filter is_insert (dropWhile (\<lambda>ev. \<not> is_backlink ev)
      (fst (main demo_env demo_tree demo_order demo_order))) = [] \<and>
   filter is_backlink (fst (main demo_env demo_tree demo_order demo_order)) \<noteq> [] \<and>
   (case snd (parseDirectoryContent demo_env ''content'' ''Oliver'' demo_tree empty_store) of
      None \<Rightarrow> False
    | Some st \<Rightarrow> map_option Backlinks (pages st ''public/blog/index.html'') = Some Map.empty)"
proof -
  have b: "filter is_backlink (fst (main demo_env demo_tree demo_order demo_order)) \<noteq> []"
    by code_simp
  have "(case snd (parseDirectoryContent demo_env ''content'' ''Oliver'' demo_tree empty_store) of
           None \<Rightarrow> False | Some st \<Rightarrow> pages st ''public/blog/index.html'' \<noteq> None)"
    by code_simp
  then obtain ev st p where
    run: "parseDirectoryContent demo_env ''content'' ''Oliver'' demo_tree empty_store = (ev, Some st)"
    and p: "pages st ''public/blog/index.html'' = Some p"
    by (cases "parseDirectoryContent demo_env ''content'' ''Oliver'' demo_tree empty_store")
       (auto split: option.splits)
  from compile_before_backlinks [of demo_env demo_tree demo_order demo_order] run p
  have "filter is_insert (dropWhile (\<lambda>ev. \<not> is_backlink ev)
      (fst (main demo_env demo_tree demo_order demo_order))) = []"
    and "Backlinks p = Map.empty"
    by blast+
  with b run p show ?thesis by simp
qed

section \<open>Template loading\<close>






section \<open>Opaque files\<close>

text \<open>
  Claim C2, as stated: an opaque file has no page record in the registry and is never a
  link-resolution source or target. In the run below \<^verbatim>\<open>readme.txt\<close> is registered (with an
  empty type) and, being the target of a link in \<^verbatim>\<open>about.md\<close>, receives a backlink.
\<close>

theorem opaque_file_registered:
  "(case snd (main demo_env asset_tree asset_order asset_order) of
      Finished st \<Rightarrow>
        map_option (\<lambda>p. (Type p, Backlinks p ''/about.html'')) (pages st ''public/readme.txt'')
    | _ \<Rightarrow> None) = Some ([], Some ''about'')"
  by code_simp

text \<open>
  Claim C2, amended. Every opaque file that is read and copied is inserted into the registry
  under its key, with an empty type, and its output bytes are its input bytes; the backlink
  pass never takes a page with an empty type as a link-resolution source (nothing is
  said about its being a target).
\<close>

theorem opaque_registered_never_source:
  assumes "navigation_partial e = Some nav" and "static_partial e = Some si"
    and "Ext name \<noteq> ''.html''" and "Ext name \<noteq> ''.md''"
    and "parseFile e directory parent name (Some s) st = (ev, Some st')"
  shows "map_option Type
           (pages st' (Replace (outPath_of e (directory @ ''/'' @ name)) ''/content'' [] 1)) = Some [] \<and>
         files st' (outPath_of e (directory @ ''/'' @ name)) = Some s \<and>
         (\<forall>st2 key p. pages st2 key = Some p \<and> Type p = [] \<longrightarrow> resolve_page e key st2 = ([], st2))"
proof (intro conjI allI impI)
  from assms(5) have run: "snd (parseFile e directory parent name (Some s) st) = Some st'"
    by simp
  define p0 where "p0 = \<lparr>Path = directory @ ''/'' @ name,
      OutPath = outPath_of e (directory @ ''/'' @ name), Name = TrimSuffix name (Ext name),
      Type = [], Backlinks = Map.empty, Content = [], Navigation = nav, Footer = [],
      StaticImports = si\<rparr>"
  define p where "p = (if Name p0 = ''index'' then p0\<lparr>Name := parent\<rparr> else p0)"
  have np: "snd (NewPage e (directory @ ''/'' @ name) (outPath_of e (directory @ ''/'' @ name))
              (TrimSuffix name (Ext name))) = Inr p0"
    by (simp add: NewPage_ok [OF assms(1,2)] p0_def)
  from run have "(case snd (copyFile e (Some s) (outPath_of e (directory @ ''/'' @ name)) st) of
                   None \<Rightarrow> None | Some st2 \<Rightarrow> snd (register p st2)) = Some st'"
    unfolding snd_parseFile np p_def by (simp add: assms(3,4) Let_def)
  then obtain st2 where
    c: "snd (copyFile e (Some s) (outPath_of e (directory @ ''/'' @ name)) st) = Some st2"
    and r: "snd (register p st2) = Some st'"
    by (auto split: option.splits)
  have tp: "Type p = []" and op: "OutPath p = outPath_of e (directory @ ''/'' @ name)"
    by (simp_all add: p_def p0_def)
  from c have f2: "files st2 (outPath_of e (directory @ ''/'' @ name)) = Some s"
    by (auto simp: copyFile_def split: if_splits)
  from r have st': "st' = st2\<lparr>pages := (pages st2)(registry_key p \<mapsto> p)\<rparr>"
    by (simp add: register_def)
  show "map_option Type
           (pages st' (Replace (outPath_of e (directory @ ''/'' @ name)) ''/content'' [] 1)) = Some []"
    by (simp add: st' registry_key_def op tp)
  show "files st' (outPath_of e (directory @ ''/'' @ name)) = Some s"
    using f2 by (simp add: st')
next
  fix st2 :: store and key :: string and p :: page
  assume "pages st2 key = Some p \<and> Type p = []"
  then show "resolve_page e key st2 = ([], st2)"
    by (simp add: resolve_page_def)
qed

theorem opaque_registered_never_source_witness:
  "navigation_partial demo_env = Some ''nav'' \<and> static_partial demo_env = Some ''static'' \<and>
   Ext ''readme.txt'' \<noteq> ''.html'' \<and> Ext ''readme.txt'' \<noteq> ''.md'' \<and>
   (case snd (parseFile demo_env ''content'' ''Oliver'' ''readme.txt'' (Some ''hi'') empty_store) of
      None \<Rightarrow> False
    | Some st \<Rightarrow>
        map_option Type (pages st ''public/readme.txt'') = Some [] \<and>
        files st ''public/readme.txt'' = Some ''hi'' \<and>
        resolve_page demo_env ''public/readme.txt'' st = ([], st))"
proof -
  have n: "navigation_partial demo_env = Some ''nav''"
    and s: "static_partial demo_env = Some ''static''"
    by (simp_all add: demo_env_def)
  have x1: "Ext ''readme.txt'' \<noteq> ''.html''" and x2: "Ext ''readme.txt'' \<noteq> ''.md''"
    by code_simp+
  have "snd (parseFile demo_env ''content'' ''Oliver'' ''readme.txt'' (Some ''hi'') empty_store)
          \<noteq> None"
    by code_simp
  then obtain ev st' where run:
    "parseFile demo_env ''content'' ''Oliver'' ''readme.txt'' (Some ''hi'') empty_store
       = (ev, Some st')"
    by (metis option.exhaust prod.collapse)
  have o: "outPath_of demo_env (''content'' @ ''/'' @ ''readme.txt'') = ''public/readme.txt''"
    and k: "Replace ''public/readme.txt'' ''/content'' [] 1 = ''public/readme.txt''"
    by code_simp+
  note t = opaque_registered_never_source [OF n s x1 x2 run, unfolded o k]
  from t have a: "map_option Type (pages st' ''public/readme.txt'') = Some []"
    and b: "files st' ''public/readme.txt'' = Some ''hi''"
    by blast+
  from a obtain p where p: "pages st' ''public/readme.txt'' = Some p" "Type p = []"
    by auto
  with t have "resolve_page demo_env ''public/readme.txt'' st' = ([], st')"
    by blast
  with a b n s x1 x2 run show ?thesis by simp
qed

section \<open>Failures of a single file\<close>









section \<open>The backlink pass as a list of updates\<close>

lemma similar_refl: "similar m m"
  by (simp add: similar_def)

lemma similar_trans: "similar m m' \<Longrightarrow> similar m' m'' \<Longrightarrow> similar m m''"
  by (simp add: similar_def)

lemma similar_apply_update: "similar m (apply_update m u)"
  by (cases u) (auto simp: similar_def apply_update_def core_def split: option.splits)

lemma similar_foldl: "similar m (foldl apply_update m us)"
proof (induction us arbitrary: m)
  case Nil
  show ?case by (simp add: similar_refl)
next
  case (Cons u us)
  from similar_apply_update Cons.IH show ?case
    by (simp only: foldl_Cons) (rule similar_trans)
qed

lemma similar_None: "similar m m' \<Longrightarrow> m k = None \<longleftrightarrow> m' k = None"
  by (metis similar_def option.map_disc_iff)

lemma similar_target_of: "similar m m' \<Longrightarrow> target_of m link = target_of m' link"
  by (simp add: target_of_def similar_None [of m m'])

lemma core_fields:
  "core p = core q \<Longrightarrow>
     Type p = Type q \<and> Content p = Content q \<and> Name p = Name q \<and> OutPath p = OutPath q"
  by (cases p, cases q) (simp add: core_def)

lemma similar_Some:
  assumes "similar m m'" and "m k = Some p"
  obtains q where "m' k = Some q" and "core p = core q"
proof -
  have "map_option core (m k) = map_option core (m' k)"
    using assms(1) by (simp add: similar_def)
  with assms(2) have "map_option core (m' k) = Some (core p)" by simp
  then obtain q where "m' k = Some q" "core q = core p"
    by (cases "m' k") auto
  then show thesis by (intro that [of q]) simp_all
qed

lemma similar_link_update:
  assumes "similar m m'" and "core p = core q"
  shows "link_update m p link = link_update m' q link"
proof -
  from core_fields [OF assms(2)] have "backlink_key p = backlink_key q" and "Name p = Name q"
    by (simp_all add: backlink_key_def)
  then show ?thesis
    by (simp only: link_update_def similar_target_of [OF assms(1)])
qed

lemma similar_page_updates:
  assumes "similar m m'"
  shows "page_updates e m key = page_updates e m' key"
proof (cases "m key")
  case None
  with assms have "m' key = None" by (simp add: similar_None [of m m'])
  with None show ?thesis by (simp add: page_updates_def)
next
  case (Some p)
  with assms obtain q where q: "m' key = Some q" "core p = core q"
    by (rule similar_Some)
  from q(2) have f: "Type p = Type q" "Content p = Content q"
    using core_fields by blast+
  have "link_update m p = link_update m' q"
    by (intro ext) (rule similar_link_update [OF assms q(2)])
  with Some q f show ?thesis by (simp add: page_updates_def)
qed

lemma similar_updates:
  assumes "similar m m'"
  shows "updates e m order = updates e m' order"
proof -
  have "page_updates e m = page_updates e m'"
    by (intro ext) (rule similar_page_updates [OF assms])
  then show ?thesis by (simp add: updates_def)
qed

lemma resolve_link_update:
  "pages (snd (resolve_link src link st)) = foldl apply_update (pages st) (link_update (pages st) src link)"
  "files (snd (resolve_link src link st)) = files st"
  by (auto simp: resolve_link_def Let_def link_update_def target_of_def apply_update_def
      add_backlink_def split: option.splits)

lemma resolve_links_update:
  "pages (snd (resolve_links src links st))
     = foldl apply_update (pages st) (concat (map (link_update (pages st) src) links)) \<and>
   files (snd (resolve_links src links st)) = files st"
proof (induction links arbitrary: st)
  case Nil
  show ?case by simp
next
  case (Cons link links)
  define st' where "st' = snd (resolve_link src link st)"
  have run: "snd (resolve_links src (link # links) st) = snd (resolve_links src links st')"
    by (simp add: case_prod_beta st'_def)
  have p': "pages st' = foldl apply_update (pages st) (link_update (pages st) src link)"
    and f': "files st' = files st"
    unfolding st'_def by (rule resolve_link_update)+
  from p' have sim: "similar (pages st) (pages st')"
    by (simp add: similar_foldl)
  have "link_update (pages st') src = link_update (pages st) src"
    by (intro ext) (rule similar_link_update [OF sim refl, symmetric])
  with Cons.IH [of st'] run p' f' show ?case by simp
qed

lemma resolve_page_update:
  "pages (snd (resolve_page e key st)) = foldl apply_update (pages st) (page_updates e (pages st) key)"
  "files (snd (resolve_page e key st)) = files st"
  by (simp_all add: resolve_page_def page_updates_def case_prod_beta resolve_links_update
      split: option.splits)

lemma resolve_all_update:
  "pages (snd (resolve_all e order st)) = foldl apply_update (pages st) (updates e (pages st) order) \<and>
   files (snd (resolve_all e order st)) = files st"
proof (induction order arbitrary: st)
  case Nil
  show ?case by (simp add: updates_def)
next
  case (Cons key order)
  define st' where "st' = snd (resolve_page e key st)"
  have run: "snd (resolve_all e (key # order) st) = snd (resolve_all e order st')"
    by (simp add: case_prod_beta st'_def)
  have p': "pages st' = foldl apply_update (pages st) (page_updates e (pages st) key)"
    and f': "files st' = files st"
    unfolding st'_def by (rule resolve_page_update)+
  from p' have sim: "similar (pages st) (pages st')"
    by (simp add: similar_foldl)
  have "updates e (pages st') order = updates e (pages st) order"
    by (rule similar_updates [OF sim, symmetric])
  with Cons.IH [of st'] run p' f' show ?case by (simp add: updates_def)
qed
lemma foldl_apply_update:
  "foldl apply_update m us k
     = map_option (\<lambda>t. t\<lparr>Backlinks := bind_all (Backlinks t) (entries_for k us)\<rparr>) (m k)"
proof (induction us arbitrary: m)
  case Nil
  show ?case by (cases "m k") (simp_all add: bind_all_def entries_for_def)
next
  case (Cons u us)
  obtain k' b n where u: "u = (k', b, n)" by (cases u)
  show ?case
  proof (cases "k' = k")
    case False
    then have "apply_update m u k = m k"
      by (simp add: apply_update_def u split: option.splits)
    moreover from False have "entries_for k (u # us) = entries_for k us"
      by (simp add: entries_for_def u)
    ultimately show ?thesis using Cons.IH [of "apply_update m u"] by simp
  next
    case True
    show ?thesis
    proof (cases "m k")
      case None
      with True have "apply_update m u = m" by (simp add: apply_update_def u)
      with None Cons.IH [of m] show ?thesis by simp
    next
      case (Some t)
      with True have "apply_update m u k = Some (t\<lparr>Backlinks := (Backlinks t)(b \<mapsto> n)\<rparr>)"
        by (simp add: apply_update_def u)
      moreover from True have "entries_for k (u # us) = (b, n) # entries_for k us"
        by (simp add: entries_for_def u)
      ultimately show ?thesis
        using Cons.IH [of "apply_update m u"] Some by (simp add: bind_all_def)
    qed
  qed
qed

lemma bind_all_snoc: "bind_all bl (xs @ [(b, n)]) = (bind_all bl xs)(b \<mapsto> n)"
  by (simp add: bind_all_def)

lemma bind_all_absent: "b \<notin> fst ` set xs \<Longrightarrow> bind_all bl xs b = bl b"
proof (induction xs rule: rev_induct)
  case Nil
  show ?case by (simp add: bind_all_def)
next
  case (snoc x xs)
  obtain b' n' where x: "x = (b', n')" by (cases x)
  from snoc.prems have "b \<noteq> b'" and "b \<notin> fst ` set xs" by (auto simp: x)
  with snoc.IH show ?case by (simp add: x bind_all_snoc)
qed

lemma bind_all_present:
  assumes "(b, n) \<in> set xs" and "\<And>n'. (b, n') \<in> set xs \<Longrightarrow> n' = n"
  shows "bind_all bl xs b = Some n"
  using assms
proof (induction xs rule: rev_induct)
  case Nil
  then show ?case by simp
next
  case (snoc x xs)
  obtain b' n' where x: "x = (b', n')" by (cases x)
  show ?case
  proof (cases "b' = b")
    case True
    with snoc.prems(2) [of n'] have "n' = n" by (simp add: x)
    with True show ?thesis by (simp add: x bind_all_snoc)
  next
    case False
    with snoc.prems(1) have in_xs: "(b, n) \<in> set xs" by (auto simp: x)
    have "bind_all bl xs b = Some n"
    proof (rule snoc.IH [OF in_xs])
      fix n''
      assume "(b, n'') \<in> set xs"
      then show "n'' = n" by (intro snoc.prems(2)) simp
    qed
    with False show ?thesis by (simp add: x bind_all_snoc)
  qed
qed

lemma bind_all_cong:
  assumes "set xs = set ys"
    and "\<And>b n n'. (b, n) \<in> set xs \<Longrightarrow> (b, n') \<in> set xs \<Longrightarrow> n = n'"
  shows "bind_all bl xs = bind_all bl ys"
proof
  fix b
  show "bind_all bl xs b = bind_all bl ys b"
  proof (cases "b \<in> fst ` set xs")
    case False
    with assms(1) show ?thesis by (simp add: bind_all_absent)
  next
    case True
    then obtain n where n: "(b, n) \<in> set xs" by auto
    have "bind_all bl xs b = Some n"
      using n assms(2) by (intro bind_all_present) blast+
    moreover have "bind_all bl ys b = Some n"
      using n assms by (intro bind_all_present) blast+
    ultimately show ?thesis by simp
  qed
qed

lemma in_page_updates:
  "(k, b, n) \<in> set (page_updates e m key) \<longleftrightarrow>
     (\<exists>src link. m key = Some src \<and> Type src \<noteq> [] \<and> link \<in> set (reHref e (Content src)) \<and>
        target_of m link = Some k \<and> b = backlink_key src \<and> n = Name src)"
proof (cases "m key")
  case None
  then show ?thesis by (simp add: page_updates_def)
next
  case (Some src)
  have "(k, b, n) \<in> set (link_update m src link) \<longleftrightarrow>
          target_of m link = Some k \<and> b = backlink_key src \<and> n = Name src" for link
    by (cases "target_of m link") (auto simp: link_update_def)
  with Some show ?thesis by (auto simp: page_updates_def)
qed

lemma in_updates:
  "(k, b, n) \<in> set (updates e m order) \<longleftrightarrow>
     (\<exists>key src link. key \<in> set order \<and> m key = Some src \<and> Type src \<noteq> [] \<and>
        link \<in> set (reHref e (Content src)) \<and>
        target_of m link = Some k \<and> b = backlink_key src \<and> n = Name src)"
  by (simp add: updates_def in_page_updates) blast

lemma in_entries_for: "(b, n) \<in> set (entries_for k us) \<longleftrightarrow> (k, b, n) \<in> set us"
  by (force simp: entries_for_def)

lemma Replace_public_prefix:
  assumes "prefix ''public/'' s"
  shows "Replace s ''public'' [] 1 = drop (length ''public'') s"
proof -
  from assms obtain x where s: "s = ''public/'' @ x" by (auto elim: prefixE)
  have "prefix ''public'' s" by (simp add: s)
  then have "Replace s ''public'' [] 1 = [] @ Replace (drop (length ''public'') s) ''public'' [] (1 - 1)"
    by (intro Replace_hit) simp_all
  moreover have "Replace (drop (length ''public'') s) ''public'' [] (1 - 1)
                  = drop (length ''public'') s"
    by (rule Replace_stop) simp
  ultimately show ?thesis by (simp only: append_Nil)
qed

lemma backlink_key_inj:
  assumes "prefix ''public/'' (OutPath p)" and "prefix ''public/'' (OutPath q)"
    and "backlink_key p = backlink_key q"
  shows "OutPath p = OutPath q"
proof -
  from assms have d: "drop (length ''public'') (OutPath p) = drop (length ''public'') (OutPath q)"
    by (simp only: backlink_key_def Replace_public_prefix)
  from assms(1) obtain x where x: "OutPath p = ''public/'' @ x" by (auto elim: prefixE)
  from assms(2) obtain y where y: "OutPath q = ''public/'' @ y" by (auto elim: prefixE)
  from d x y show ?thesis by simp
qed

lemma wf_updates_functional:
  assumes "wf_pages m"
    and "(k, b, n) \<in> set (updates e m order)" and "(k', b, n') \<in> set (updates e m order')"
  shows "n = n'"
proof -
  from assms(2) obtain key src where s: "m key = Some src" "b = backlink_key src" "n = Name src"
    unfolding in_updates by blast
  from assms(3) obtain key' src' where s': "m key' = Some src'" "b = backlink_key src'"
      "n' = Name src'"
    unfolding in_updates by blast
  from assms(1) s(1) s'(1) have w: "key = registry_key src" "prefix ''public/'' (OutPath src)"
      "key' = registry_key src'" "prefix ''public/'' (OutPath src')"
    by (simp_all add: wf_pages_def)
  from s(2) s'(2) have "backlink_key src = backlink_key src'" by simp
  from backlink_key_inj [OF w(2) w(4) this] have "OutPath src = OutPath src'" .
  then have "key = key'" by (simp add: w registry_key_def)
  with s(1) s'(1) have "src = src'" by simp
  with s(3) s'(3) show ?thesis by simp
qed
section \<open>Well-formed registries\<close>

lemma parse_preserves:
  assumes step: "\<And>e directory parent name src s s'.
      I s \<Longrightarrow> snd (parseFile e directory parent name src s) = Some s' \<Longrightarrow> I s'"
  shows "I st \<Longrightarrow> snd (parseDirectoryContent e directory parent listing st) = Some st' \<Longrightarrow> I st'"
    and "I st \<Longrightarrow> snd (parseInodes e directory parent inodes st) = Some st' \<Longrightarrow> I st'"
proof (induction e directory parent listing st and e directory parent inodes st
    arbitrary: st' and st' rule: parse_induct)
  case (Listing e directory parent listing st)
  then show ?case by (cases listing) (simp_all add: snd_parseDirectoryContent)
next
  case (Nil e directory parent st)
  then show ?case by simp
next
  case (File e directory parent name src rest st)
  from File.prems(2) obtain st1 where a: "snd (parseFile e directory parent name src st) = Some st1"
    and b: "snd (parseInodes e directory parent rest st1) = Some st'"
    by (simp add: snd_parseInodes_File split: option.splits)
  from step [OF File.prems(1) a] have "I st1" .
  from File.IH [OF a this b] show ?case .
next
  case (Dir e directory parent name listing rest st)
  show ?case
  proof (cases "mkdir_ok e (outPath_of e (directory @ ''/'' @ name))")
    case False
    with Dir.prems(2) have "snd (parseInodes e directory parent rest st) = Some st'"
      by (simp add: snd_parseInodes_Dir)
    from Dir.IH(1) [OF False Dir.prems(1) this] show ?thesis .
  next
    case True
    with Dir.prems(2) obtain st1 where
      a: "snd (parseDirectoryContent e (directory @ ''/'' @ name) (childName directory parent)
                 listing st) = Some st1"
      and b: "snd (parseInodes e directory parent rest st1) = Some st'"
      by (simp add: snd_parseInodes_Dir split: option.splits)
    from Dir.IH(2) [OF True Dir.prems(1) a] have "I st1" .
    from Dir.IH(3) [OF True a this b] show ?thesis .
  qed
qed

lemma register_wf:
  "wf_pages (pages st) \<Longrightarrow> prefix ''public/'' (OutPath p) \<Longrightarrow> snd (register p st) = Some st'
     \<Longrightarrow> wf_pages (pages st')"
  by (auto simp: register_def wf_pages_def split: if_splits)

lemma NewPage_OutPath:
  "snd (NewPage e path outPath name) = Inr p0 \<Longrightarrow> OutPath p0 = outPath"
  by (auto simp: NewPage_def Let_def split: option.splits)

lemma parseFile_wf:
  assumes inv: "wf_pages (pages st)"
    and run: "snd (parseFile e directory parent name src st) = Some st'"
  shows "wf_pages (pages st')"
proof (cases src)
  case None
  with assms show ?thesis by (simp add: snd_parseFile)
next
  case (Some s)
  let ?out = "outPath_of e (directory @ ''/'' @ name)"
  let ?np = "snd (NewPage e (directory @ ''/'' @ name) ?out (TrimSuffix name (Ext name)))"
  show ?thesis
  proof (cases ?np)
    case (Inl err)
    with Some assms show ?thesis by (simp add: snd_parseFile)
  next
    case (Inr p0)
    define p where "p = (if Name p0 = ''index'' then p0\<lparr>Name := parent\<rparr> else p0)"
    have "OutPath p = ?out"
      using NewPage_OutPath [OF Inr] by (simp add: p_def)
    then have b: "prefix ''public/'' (OutPath p)"
      by (simp add: outPath_of_def)
    consider (html) "Ext name = ''.html''"
      | (md) "Ext name \<noteq> ''.html''" "Ext name = ''.md''"
      | (other) "Ext name \<noteq> ''.html''" "Ext name \<noteq> ''.md''"
      by blast
    then show ?thesis
    proof cases
      case html
      with run Some Inr have "snd (register (p\<lparr>Type := ''HTML''\<rparr>) st) = Some st'"
        by (simp add: snd_parseFile p_def Let_def)
      with inv b show ?thesis by (intro register_wf [of st _ st']) simp_all
    next
      case md
      with run Some Inr
      have "snd (register (p\<lparr>Content := markdown2html e s, Type := ''MD''\<rparr>) st) = Some st'"
        by (simp add: snd_parseFile p_def Let_def)
      with inv b show ?thesis by (intro register_wf [of st _ st']) simp_all
    next
      case other
      with run Some Inr obtain st2 where
        c: "snd (copyFile e src ?out st) = Some st2"
        and r: "snd (register p st2) = Some st'"
        by (simp add: snd_parseFile p_def Let_def split: option.splits)
      from copyFile_pages [OF c] inv have "wf_pages (pages st2)" by simp
      with r b show ?thesis by (intro register_wf [of st2 p st']) simp_all
    qed
  qed
qed

lemma compile_wf:
  assumes "snd (parseDirectoryContent e directory parent listing empty_store) = Some st"
  shows "wf_pages (pages st)"
proof -
  have "wf_pages (pages empty_store)" by (simp add: wf_pages_def empty_store_def)
  from parse_preserves(1) [where I = "\<lambda>s. wf_pages (pages s)", OF parseFile_wf this assms]
  show ?thesis .
qed

lemma target_of_present: "target_of m link = Some k \<Longrightarrow> m k \<noteq> None"
  by (auto simp: target_of_def split: if_splits)

lemma resolve_all_backlink:
  assumes "wf_pages (pages st)" and "(k, b, n) \<in> set (updates e (pages st) order)"
  shows "map_option (\<lambda>t. Backlinks t b) (pages (snd (resolve_all e order st)) k) = Some (Some n)"
proof -
  from assms(2) have "pages st k \<noteq> None"
    unfolding in_updates using target_of_present by blast
  then obtain t where t: "pages st k = Some t" by blast
  have "bind_all (Backlinks t) (entries_for k (updates e (pages st) order)) b = Some n"
  proof (rule bind_all_present)
    show "(b, n) \<in> set (entries_for k (updates e (pages st) order))"
      using assms(2) by (simp add: in_entries_for)
  next
    fix n'
    assume "(b, n') \<in> set (entries_for k (updates e (pages st) order))"
    then have "(k, b, n') \<in> set (updates e (pages st) order)" by (simp add: in_entries_for)
    from wf_updates_functional [OF assms(1) this assms(2)] show "n' = n" .
  qed
  with t show ?thesis
    by (simp add: resolve_all_update foldl_apply_update)
qed

section \<open>The directory-index fallback\<close>

text \<open>
  Claim C5. Whenever a link extracted from a page has no exact match in the registry and
  the registry has a page under the link followed by \<^verbatim>\<open>/index.html\<close>, the resolver records
  the backlink on that page: the step for the link stores the entry on the index page, and
  when the backlink pass over the compiled registry has ended, the index page's backlinks map
  sends the referencing page's backlink key to its name.
\<close>

theorem index_fallback_records_backlink:
  assumes "parseDirectoryContent e ''content'' ''Oliver'' root empty_store = (ev, Some st)"
    and "key \<in> set order" and "pages st key = Some src" and "Type src \<noteq> []"
    and "link \<in> set (reHref e (Content src))"
    and "pages st (''public'' @ link) = None"
    and "pages st (''public'' @ link @ ''/index.html'') = Some target"
  shows "resolve_link src link st
           = ([Log (''[gen/parse/backlinks] found link in '' @ OutPath src @ '': '' @ link),
               Backlink (''public'' @ link @ ''/index.html'') (backlink_key src) (Name src)],
              st\<lparr>pages := (pages st)(''public'' @ link @ ''/index.html'' \<mapsto>
                     target\<lparr>Backlinks := (Backlinks target)(backlink_key src \<mapsto> Name src)\<rparr>)\<rparr>) \<and>
         map_option (\<lambda>t. Backlinks t (backlink_key src))
           (pages (snd (resolve_all e order st)) (''public'' @ link @ ''/index.html''))
           = Some (Some (Name src))"
proof
  show "resolve_link src link st
           = ([Log (''[gen/parse/backlinks] found link in '' @ OutPath src @ '': '' @ link),
               Backlink (''public'' @ link @ ''/index.html'') (backlink_key src) (Name src)],
              st\<lparr>pages := (pages st)(''public'' @ link @ ''/index.html'' \<mapsto>
                     target\<lparr>Backlinks := (Backlinks target)(backlink_key src \<mapsto> Name src)\<rparr>)\<rparr>)"
    using assms(6,7) by (simp add: resolve_link_def Let_def add_backlink_def)
next
  from assms(1) have "snd (parseDirectoryContent e ''content'' ''Oliver'' root empty_store) = Some st"
    by simp
  then have wf: "wf_pages (pages st)" by (rule compile_wf)
  have "target_of (pages st) link = Some (''public'' @ link @ ''/index.html'')"
    using assms(6,7) by (simp add: target_of_def)
  with assms(2-5) have
    "(''public'' @ link @ ''/index.html'', backlink_key src, Name src)
        \<in> set (updates e (pages st) order)"
    unfolding in_updates by blast
  from resolve_all_backlink [OF wf this]
  show "map_option (\<lambda>t. Backlinks t (backlink_key src))
           (pages (snd (resolve_all e order st)) (''public'' @ link @ ''/index.html''))
           = Some (Some (Name src))" .
qed

theorem index_fallback_records_backlink_witness:
  "(case snd (parseDirectoryContent demo_env ''content'' ''Oliver'' demo_tree empty_store) of
      None \<Rightarrow> False
    | Some st \<Rightarrow>
        map_option Type (pages st ''public/blog/post.html'') = Some ''MD'' \<and>
        map_option (\<lambda>p. reHref demo_env (Content p)) (pages st ''public/blog/post.html'')
          = Some [''/blog''] \<and>
        pages st ''public/blog'' = None \<and>
        pages st ''public/blog/index.html'' \<noteq> None \<and>
        map_option (\<lambda>t. Backlinks t ''/blog/post.html'')
          (pages (snd (resolve_all demo_env demo_order st)) ''public/blog/index.html'')
          = Some (Some ''post'')) \<and>
   ''public/blog/post.html'' \<in> set demo_order"
proof -
  have ev: "(case snd (parseDirectoryContent demo_env ''content'' ''Oliver'' demo_tree empty_store) of
      None \<Rightarrow> False
    | Some st \<Rightarrow>
        map_option (\<lambda>p. (Type p, Content p, OutPath p, Name p)) (pages st ''public/blog/post.html'')
          = Some (''MD'', ''[home](/blog)'', ''public/blog/post.html'', ''post'') \<and>
        pages st ''public/blog'' = None \<and>
        pages st ''public/blog/index.html'' \<noteq> None)"
    by code_simp
  then obtain evs st where run:
    "parseDirectoryContent demo_env ''content'' ''Oliver'' demo_tree empty_store = (evs, Some st)"
    by (cases "parseDirectoryContent demo_env ''content'' ''Oliver'' demo_tree empty_store")
       (auto split: option.splits)
  with ev obtain src target where
    src: "pages st ''public/blog/post.html'' = Some src" "Type src = ''MD''"
      "Content src = ''[home](/blog)''" "OutPath src = ''public/blog/post.html''"
      "Name src = ''post''"
    and none: "pages st ''public/blog'' = None"
    and tgt: "pages st ''public/blog/index.html'' = Some target"
    by auto
  have k: "''public/blog/post.html'' \<in> set demo_order" by (simp add: demo_order_def)
  have ty: "Type src \<noteq> []" using src(2) by simp
  have l: "''/blog'' \<in> set (reHref demo_env (Content src))"
    by (simp add: src(3) demo_env_def)
  have n: "pages st (''public'' @ ''/blog'') = None" using none by simp
  have t: "pages st (''public'' @ ''/blog'' @ ''/index.html'') = Some target" using tgt by simp
  have bk: "backlink_key src = ''/blog/post.html''"
    unfolding backlink_key_def src(4) by code_simp
  note fb = index_fallback_records_backlink [OF run k src(1) ty l n t, THEN conjunct2,
      unfolded bk src(5)]
  from fb have "map_option (\<lambda>t. Backlinks t ''/blog/post.html'')
          (pages (snd (resolve_all demo_env demo_order st)) ''public/blog/index.html'')
          = Some (Some ''post'')"
    by simp
  moreover have "map_option (\<lambda>p. reHref demo_env (Content p)) (pages st ''public/blog/post.html'')
          = Some [''/blog'']"
    by (simp add: src demo_env_def)
  ultimately show ?thesis
    using run src none tgt k by simp
qed

end
